theory Spec2Isabelle
  imports Complex_Main "HOL-Library.AList" "HOL-Library.Log_Nat"
begin

section \<open>Text editor (static/editor.js): data model\<close>

text \<open>
  JavaScript values are modelled as follows. Positions, user ids and modification ids are
  numbers that only ever hold integers here (\<open>int\<close>). Strings are lists of code units.
  A \<open>Map\<close> is an association list in insertion order: \<open>Map.set\<close> is \<open>AList.update\<close>
  (in place for a present key, appended for a new one), \<open>Map.delete\<close> is \<open>AList.delete\<close>
  and \<open>Map.get\<close> is \<open>map_of\<close>. The cursor objects \<open>#cursors\<close> and \<open>#server_cursors\<close>
  are association lists too; the order of their entries is read by the renderer only, which
  is outside the engine state. \<open>structuredClone\<close> is a deep copy, so it is the identity on
  values. A thrown \<open>TypeError\<close> leaves the engine in the state reached so far: every
  operation returns an \<open>outcome\<close> that carries that state. A parameter whose name
  is also a field's is written with a prime (\<open>position'\<close>, \<open>userid'\<close>). Rendering writes
  to the document only and is left out.
\<close>

type_synonym range = "int \<times> int"

text \<open>The \<open>flag\<close> argument: \<open>undefined\<close> (the default of \<open>toggle_property\<close>), \<open>null\<close>
  (what the wire carries for a missing flag) or a string.\<close>

datatype flag = Undefined | Null | Str string

definition truthy :: "flag \<Rightarrow> bool" where
  "truthy flag = (case flag of Str s \<Rightarrow> s \<noteq> [] | _ \<Rightarrow> False)"

text \<open>Loose equality \<open>==\<close> on flags: \<open>undefined == null\<close> holds.\<close>

definition loose_eq :: "flag \<Rightarrow> flag \<Rightarrow> bool" where
  "loose_eq a b = (case (a, b) of
      (Str x, Str y) \<Rightarrow> x = y
    | (Str x, _) \<Rightarrow> False
    | (_, Str y) \<Rightarrow> False
    | _ \<Rightarrow> True)"

text \<open>\<open>PropertyRanges\<close>: \<open>{flags: false, ranges: [..]}\<close> or \<open>{flags: true, ranges: Map}\<close>.\<close>

datatype property_ranges =
    Flagless "range list"
  | Flagged "(flag \<times> range list) list"

type_synonym property_table = "(string \<times> property_ranges) list"

record cursor =
  position :: int
  username :: string
  colour :: "string option"

text \<open>The elements of the queue \<open>#builtup_inputs\<close>, by their \<open>type\<close> tag.\<close>

datatype input =
    Remove_input int int
  | Add_input int string
  | Add_property_input int int string flag
  | Remove_property_input int int string
  | Cursor_input int

text \<open>What \<open>#socket.emit\<close> sends; the last argument is \<open>#last_mod_id\<close> (\<open>null\<close> before
  the file is loaded).\<close>

datatype emission =
    Emit_remove_region int int "int option"
  | Emit_add_region string int "int option"
  | Emit_add_property int int string flag "int option"
  | Emit_remove_property int int string "int option"
  | Emit_cursor_moved int "int option"
  | Emit_update_last_mod_id "int option"

record editor =
  cursors :: "(int \<times> cursor) list"
  server_cursors :: "(int \<times> cursor) list"
  builtup_inputs :: "input list"
  server_content :: string
  content :: string
  properties :: property_table
  server_properties :: property_table
  last_mod_id :: "int option"
  last_mod_id_dirty :: bool
  socket :: "emission list"
  userid :: "int option"
  read_only :: bool
  console :: nat

datatype js_error = TypeError | NotFoundError

datatype 'a outcome = Returned 'a | Threw js_error 'a

text \<open>The constructor: the fields' initialisers and \<open>read_only\<close>. \<open>socket\<close> is the list of
  events emitted so far and \<open>console\<close> counts the calls of \<open>console.error\<close>.\<close>

definition new_Editor :: "bool \<Rightarrow> editor" where
  "new_Editor ro = \<lparr> cursors = [], server_cursors = [], builtup_inputs = [],
     server_content = [], content = [], properties = [], server_properties = [],
     last_mod_id = None, last_mod_id_dirty = False, socket = [], userid = None,
     read_only = ro, console = 0 \<rparr>"

definition assert :: "bool \<Rightarrow> editor \<Rightarrow> editor" where
  "assert v s = (if \<not> v then s\<lparr>console := Suc (console s)\<rparr> else s)"

definition emit :: "emission \<Rightarrow> editor \<Rightarrow> editor" where
  "emit e s = s\<lparr>socket := socket s @ [e]\<rparr>"

definition push_input :: "input \<Rightarrow> editor \<Rightarrow> editor" where
  "push_input i s = s\<lparr>builtup_inputs := builtup_inputs s @ [i]\<rparr>"

definition set_last_mod_id :: "int \<Rightarrow> editor \<Rightarrow> editor" where
  "set_last_mod_id m s = s\<lparr>last_mod_id := Some m, last_mod_id_dirty := True\<rparr>"

text \<open>\<open>String.prototype.substring\<close> clamps its indices to \<open>[0, length]\<close>; \<open>substring(0, n)\<close>
  and \<open>substring(n)\<close> are \<open>take\<close> and \<open>drop\<close> at the clamped index.\<close>

definition substring_to :: "int \<Rightarrow> string \<Rightarrow> string" where
  "substring_to n str = take (nat n) str"

definition substring_from :: "int \<Rightarrow> string \<Rightarrow> string" where
  "substring_from n str = drop (nat n) str"

section \<open>Local application primitives\<close>

definition shift_ranges :: "(int \<Rightarrow> int) \<Rightarrow> range list \<Rightarrow> range list" where
  "shift_ranges shift ranges = map (\<lambda>(r0, r1). (shift r0, shift r1)) ranges"

fun shift_property :: "(int \<Rightarrow> int) \<Rightarrow> property_ranges \<Rightarrow> property_ranges" where
  "shift_property shift (Flagged m) = Flagged (map (\<lambda>(key, ranges). (key, shift_ranges shift ranges)) m)"
| "shift_property shift (Flagless ranges) = Flagless (shift_ranges shift ranges)"

definition shift_cursors :: "(int \<Rightarrow> int) \<Rightarrow> (int \<times> cursor) list \<Rightarrow> (int \<times> cursor) list" where
  "shift_cursors shift cs = map (\<lambda>(u, c). (u, c\<lparr>position := shift (position c)\<rparr>)) cs"

definition shift_table :: "(int \<Rightarrow> int) \<Rightarrow> property_table \<Rightarrow> property_table" where
  "shift_table shift props = map (\<lambda>(name, prop). (name, shift_property shift prop)) props"

definition shift_all_fixed_points :: "(int \<Rightarrow> int) \<Rightarrow> bool \<Rightarrow> editor \<Rightarrow> editor" where
  "shift_all_fixed_points shift server_side s =
     (if server_side
      then s\<lparr>server_cursors := shift_cursors shift (server_cursors s),
             server_properties := shift_table shift (server_properties s)\<rparr>
      else s\<lparr>cursors := shift_cursors shift (cursors s),
             properties := shift_table shift (properties s)\<rparr>)"

text \<open>\<open>remove_empty\<close>: the indices of the ranges with \<open>range[0] >= range[1]\<close> are collected in
  ascending order and spliced out from the last one down.\<close>

definition splice1 :: "nat \<Rightarrow> 'a list \<Rightarrow> 'a list" where
  "splice1 i xs = take i xs @ drop (Suc i) xs"

definition to_remove :: "range list \<Rightarrow> nat list" where
  "to_remove ranges = filter (\<lambda>i. fst (ranges ! i) \<ge> snd (ranges ! i)) [0..<length ranges]"

definition remove_empty :: "range list \<Rightarrow> range list" where
  "remove_empty ranges = fold splice1 (rev (to_remove ranges)) ranges"

fun remove_empty_prop :: "property_ranges \<Rightarrow> property_ranges option" where
  "remove_empty_prop (Flagged m) =
     (let m' = filter (\<lambda>(key, ranges). ranges \<noteq> [])
                 (map (\<lambda>(key, ranges). (key, remove_empty ranges)) m)
      in if m' = [] then None else Some (Flagged m'))"
| "remove_empty_prop (Flagless ranges) =
     (let ranges' = remove_empty ranges
      in if ranges' = [] then None else Some (Flagless ranges'))"

definition remove_empty_table :: "property_table \<Rightarrow> property_table" where
  "remove_empty_table props =
     List.map_filter (\<lambda>(name, prop). map_option (Pair name) (remove_empty_prop prop)) props"

definition remove_empty_property_ranges :: "bool \<Rightarrow> editor \<Rightarrow> editor" where
  "remove_empty_property_ranges server_side s =
     (if server_side then s\<lparr>server_properties := remove_empty_table (server_properties s)\<rparr>
      else s\<lparr>properties := remove_empty_table (properties s)\<rparr>)"

definition remove_shift :: "int \<Rightarrow> int \<Rightarrow> int \<Rightarrow> int" where
  "remove_shift start end pos = (if pos > start then pos - (min end pos - start) else pos)"

definition add_shift :: "string \<Rightarrow> int \<Rightarrow> int \<Rightarrow> int" where
  "add_shift text position' pos = (if pos > position' then pos + int (length text) else pos)"

definition actual_remove :: "int \<Rightarrow> int \<Rightarrow> bool \<Rightarrow> editor \<Rightarrow> editor" where
  "actual_remove start end server_side s =
     (let s1 = shift_all_fixed_points (remove_shift start end) server_side s;
          s2 = remove_empty_property_ranges server_side s1
      in if server_side
         then s2\<lparr>server_content := substring_to start (server_content s2) @ substring_from end (server_content s2)\<rparr>
         else s2\<lparr>content := substring_to start (content s2) @ substring_from end (content s2)\<rparr>)"

definition actual_add :: "string \<Rightarrow> int \<Rightarrow> bool \<Rightarrow> editor \<Rightarrow> editor" where
  "actual_add text position' server_side s =
     (let s1 = shift_all_fixed_points (add_shift text position') server_side s
      in if server_side
         then s1\<lparr>server_content := substring_to position' (server_content s1) @ text @ substring_from position' (server_content s1)\<rparr>
         else s1\<lparr>content := substring_to position' (content s1) @ text @ substring_from position' (content s1)\<rparr>)"

text \<open>\<open>cutOverlaps\<close>, the inner function of \<open>#actual_remove_property\<close>.\<close>

definition cutOverlaps :: "int \<Rightarrow> int \<Rightarrow> range list \<Rightarrow> range list" where
  "cutOverlaps start end ranges = concat (map (\<lambda>(r0, r1).
      if r0 \<ge> start
      then (if r1 > end then [(max end r0, r1)] else [])
      else (if r1 > end then [(r0, start), (end, r1)] else [(r0, min start r1)])) ranges)"

definition remove_property_table :: "int \<Rightarrow> int \<Rightarrow> string \<Rightarrow> property_table \<Rightarrow> property_table" where
  "remove_property_table start end property props =
     (case map_of props property of
        None \<Rightarrow> props
      | Some (Flagged m) \<Rightarrow>
          (let m' = filter (\<lambda>(key, new_ranges). new_ranges \<noteq> [])
                      (map (\<lambda>(key, ranges). (key, cutOverlaps start end ranges)) m)
           in if m' = [] then AList.delete property props
              else AList.update property (Flagged m') props)
      | Some (Flagless ranges) \<Rightarrow>
          (let new_ranges = cutOverlaps start end ranges
           in if new_ranges \<noteq> [] then AList.update property (Flagless new_ranges) props
              else AList.delete property props))"

definition actual_remove_property :: "int \<Rightarrow> int \<Rightarrow> string \<Rightarrow> bool \<Rightarrow> editor \<Rightarrow> editor" where
  "actual_remove_property start end property server_side s =
     (if server_side
      then s\<lparr>server_properties := remove_property_table start end property (server_properties s)\<rparr>
      else s\<lparr>properties := remove_property_table start end property (properties s)\<rparr>)"

text \<open>The \<open>forEach\<close> of \<open>#actual_add_property\<close> with its flag \<open>was_added\<close>, and the \<open>push\<close>
  that follows it.\<close>

fun merge_loop :: "int \<Rightarrow> int \<Rightarrow> range list \<Rightarrow> bool \<Rightarrow> range list \<times> bool" where
  "merge_loop start end [] was_added = ([], was_added)"
| "merge_loop start end ((r0, r1) # rest) was_added =
     (if r1 = start
      then (case merge_loop start end rest True of (rs, w) \<Rightarrow> ((r0, end) # rs, w))
      else if r0 = end
      then (case merge_loop start end rest True of (rs, w) \<Rightarrow> ((r0, start) # rs, w))
      else (case merge_loop start end rest was_added of (rs, w) \<Rightarrow> ((r0, r1) # rs, w)))"

definition merge_range :: "int \<Rightarrow> int \<Rightarrow> range list \<Rightarrow> range list" where
  "merge_range start end ranges =
     (case merge_loop start end ranges False of
        (rs, was_added) \<Rightarrow> if \<not> was_added then rs @ [(start, end)] else rs)"

text \<open>\<open>#actual_add_property\<close> on one table. The object \<open>prop\<close> is fetched before
  \<open>#actual_remove_property\<close> runs; when that call deletes the property from the table, the
  merge that follows changes the detached object only and the table stays without it.\<close>

definition add_property_table :: "int \<Rightarrow> int \<Rightarrow> string \<Rightarrow> flag \<Rightarrow> property_table \<Rightarrow> property_table" where
  "add_property_table start end property flag props =
     (case map_of props property of
        Some prop \<Rightarrow>
          (let props1 = remove_property_table start end property props
           in case map_of props1 property of
                None \<Rightarrow> props1
              | Some (Flagged m) \<Rightarrow>
                  (let m1 = (if map_of m flag = None then AList.update flag [] m else m);
                       ranges = (case map_of m1 flag of Some rs \<Rightarrow> rs | None \<Rightarrow> [])
                   in AList.update property
                        (Flagged (AList.update flag (merge_range start end ranges) m1)) props1)
              | Some (Flagless ranges) \<Rightarrow>
                  AList.update property (Flagless (merge_range start end ranges)) props1)
      | None \<Rightarrow>
          (if truthy flag
           then AList.update property (Flagged [(flag, [(start, end)])]) props
           else AList.update property (Flagless [(start, end)]) props))"

definition actual_add_property :: "int \<Rightarrow> int \<Rightarrow> string \<Rightarrow> flag \<Rightarrow> bool \<Rightarrow> editor \<Rightarrow> editor" where
  "actual_add_property start end property flag server_side s =
     (if server_side
      then s\<lparr>server_properties := add_property_table start end property flag (server_properties s)\<rparr>
      else s\<lparr>properties := add_property_table start end property flag (properties s)\<rparr>)"

section \<open>Inbound events\<close>

definition CURSOR_COLOURS :: "string list" where
  "CURSOR_COLOURS = [''red'', ''orange'', ''brown'', ''green'', ''blue'', ''violet'', ''pink'']"

definition on_connected :: "int \<Rightarrow> string \<Rightarrow> int \<Rightarrow> editor \<Rightarrow> editor" where
  "on_connected my_userid content' last_mod_id' s =
     (let s1 = s\<lparr>userid := Some my_userid, content := content', server_content := content',
                  last_mod_id := Some last_mod_id'\<rparr>
      in if \<not> read_only s1
         then (let cs = AList.update my_userid
                          \<lparr>position = 0, username = ''Me'', colour = Some ''black''\<rparr> (cursors s1)
               in s1\<lparr>cursors := cs, server_cursors := cs\<rparr>)
         else s1)"

definition on_user_disconnected :: "int \<Rightarrow> editor \<Rightarrow> editor" where
  "on_user_disconnected userid' s =
     s\<lparr>server_cursors := AList.delete userid' (server_cursors s),
       cursors := AList.delete userid' (cursors s)\<rparr>"

definition on_ping :: "editor \<Rightarrow> editor" where
  "on_ping s =
     (if last_mod_id_dirty s
      then (emit (Emit_update_last_mod_id (last_mod_id s)) s)\<lparr>last_mod_id_dirty := False\<rparr>
      else s)"

text \<open>The loop of \<open>#on_cursor_moved\<close> over the queue: one step on the remote position.\<close>

fun rebase_position :: "input \<Rightarrow> int \<Rightarrow> int" where
  "rebase_position (Remove_input start end) pos =
     (if pos > start then pos - (min end pos - start) else pos)"
| "rebase_position (Add_input p text) pos =
     (if pos > p then pos + int (length text) else pos)"
| "rebase_position _ pos = pos"

text \<open>\<open>Math.random()\<close> is the argument \<open>random\<close>, a number in \<open>[0, 1)\<close>. An index past the end
  of \<open>remaining_colours\<close> reads \<open>undefined\<close>.\<close>

definition pick_colour :: "real \<Rightarrow> (int \<times> cursor) list \<Rightarrow> string option" where
  "pick_colour random cs =
     (let remaining_colours =
            filter (\<lambda>col. List.find (\<lambda>cur. colour cur = Some col) (map snd cs) = None) CURSOR_COLOURS;
          i = nat \<lfloor>random * real (length remaining_colours)\<rfloor>
      in if i < length remaining_colours then Some (remaining_colours ! i) else None)"

definition on_cursor_moved :: "real \<Rightarrow> int \<Rightarrow> int \<Rightarrow> string \<Rightarrow> int \<Rightarrow> editor \<Rightarrow> editor outcome" where
  "on_cursor_moved random position' userid' username' mod_id s =
     (let s1 = set_last_mod_id mod_id s
      in if Some userid' = userid s1
         then (case builtup_inputs s1 of
                 [] \<Rightarrow> Threw TypeError s1
               | expect # rest \<Rightarrow>
                   (let s2 = assert (expect = Cursor_input position') (s1\<lparr>builtup_inputs := rest\<rparr>)
                    in case map_of (server_cursors s2) userid' of
                         None \<Rightarrow> Threw TypeError s2
                       | Some c \<Rightarrow>
                           Returned (s2\<lparr>server_cursors :=
                             AList.update userid' (c\<lparr>position := position'\<rparr>) (server_cursors s2)\<rparr>)))
         else (let position1 = fold rebase_position (builtup_inputs s1) position';
                   c = (case map_of (cursors s1) userid' of
                          Some c0 \<Rightarrow> c0\<lparr>position := position1\<rparr>
                        | None \<Rightarrow> \<lparr>position = position1, username = username',
                                    colour = pick_colour random (cursors s1)\<rparr>)
               in Returned (s1\<lparr>cursors := AList.update userid' c (cursors s1),
                              server_cursors := AList.update userid' c (server_cursors s1)\<rparr>)))"

text \<open>The getter \<open>position\<close> and the assignment \<open>this.#cursors[this.#userid].position = p\<close>:
  both throw when the engine has no cursor of its own (\<open>None\<close>).\<close>

definition get_position :: "editor \<Rightarrow> int option" where
  "get_position s =
     (if read_only s then Some 0
      else case userid s of
             None \<Rightarrow> None
           | Some u \<Rightarrow> map_option position (map_of (cursors s) u))"

definition set_own_position :: "int \<Rightarrow> editor \<Rightarrow> editor option" where
  "set_own_position p s =
     (case userid s of
        None \<Rightarrow> None
      | Some u \<Rightarrow>
          (case map_of (cursors s) u of
             None \<Rightarrow> None
           | Some c \<Rightarrow> Some (s\<lparr>cursors := AList.update u (c\<lparr>position := p\<rparr>) (cursors s)\<rparr>)))"

text \<open>The body of one \<open>case\<close> of the replay loops, after the input's coordinates were
  rebased: the input is applied to the live replica.\<close>

fun apply_input :: "input \<Rightarrow> editor \<Rightarrow> editor outcome" where
  "apply_input (Remove_input start end) s = Returned (actual_remove start end False s)"
| "apply_input (Add_input p text) s = Returned (actual_add text p False s)"
| "apply_input (Remove_property_input start end property) s =
     Returned (actual_remove_property start end property False s)"
| "apply_input (Add_property_input start end property flag) s =
     Returned (actual_add_property start end property flag False s)"
| "apply_input (Cursor_input p) s =
     (case set_own_position p s of None \<Rightarrow> Threw TypeError s | Some s' \<Rightarrow> Returned s')"

text \<open>\<open>for (const input of this.#builtup_inputs)\<close> in \<open>#on_remove_region\<close> and
  \<open>#on_add_region\<close>: each input is rebased in place, then applied. \<open>done\<close> holds the inputs
  already visited.\<close>

fun replay :: "(input \<Rightarrow> input) \<Rightarrow> input list \<Rightarrow> input list \<Rightarrow> editor \<Rightarrow> editor outcome" where
  "replay rebase done [] s = Returned s"
| "replay rebase done (i # rest) s =
     (let i' = rebase i;
          s1 = s\<lparr>builtup_inputs := done @ i' # rest\<rparr>
      in case apply_input i' s1 of
           Threw e s2 \<Rightarrow> Threw e s2
         | Returned s2 \<Rightarrow> replay rebase (done @ [i']) rest s2)"

definition remove_rebase :: "int \<Rightarrow> int \<Rightarrow> int \<Rightarrow> int" where
  "remove_rebase start end p = (if start < p then p - (min p end - start) else p)"

fun rebase_after_remove :: "int \<Rightarrow> int \<Rightarrow> input \<Rightarrow> input" where
  "rebase_after_remove start end (Remove_input a b) =
     Remove_input (remove_rebase start end a) (remove_rebase start end b)"
| "rebase_after_remove start end (Add_input p text) = Add_input (remove_rebase start end p) text"
| "rebase_after_remove start end (Remove_property_input a b property) =
     Remove_property_input (remove_rebase start end a) (remove_rebase start end b) property"
| "rebase_after_remove start end (Add_property_input a b property flag) =
     Add_property_input (remove_rebase start end a) (remove_rebase start end b) property flag"
| "rebase_after_remove start end (Cursor_input p) = Cursor_input (remove_rebase start end p)"

fun rebase_after_add :: "string \<Rightarrow> int \<Rightarrow> input \<Rightarrow> input" where
  "rebase_after_add text position' (Remove_input a b) =
     Remove_input (if position' < a then a + int (length text) else a)
                  (if position' \<le> b then b + int (length text) else b)"
| "rebase_after_add text position' (Add_input p t) =
     Add_input (if position' < p then p + int (length text) else p) t"
| "rebase_after_add text position' (Remove_property_input a b property) =
     Remove_property_input (if position' < a then a + int (length text) else a)
                           (if position' \<le> b then b + int (length text) else b) property"
| "rebase_after_add text position' (Add_property_input a b property flag) =
     Add_property_input (if position' < a then a + int (length text) else a)
                        (if position' \<le> b then b + int (length text) else b) property flag"
| "rebase_after_add text position' (Cursor_input p) =
     Cursor_input (if position' < p then p + int (length text) else p)"

definition reset_live :: "editor \<Rightarrow> editor" where
  "reset_live s = s\<lparr>content := server_content s, cursors := server_cursors s,
                    properties := server_properties s\<rparr>"

definition on_remove_region :: "int \<Rightarrow> int \<Rightarrow> int \<Rightarrow> int \<Rightarrow> editor \<Rightarrow> editor outcome" where
  "on_remove_region start end userid' mod_id s =
     (let s1 = set_last_mod_id mod_id s;
          s2 = actual_remove start end True s1
      in if Some userid' = userid s2
         then (case builtup_inputs s2 of
                 [] \<Rightarrow> Threw TypeError s2
               | expect # rest \<Rightarrow>
                   Returned (assert (expect = Remove_input start end) (s2\<lparr>builtup_inputs := rest\<rparr>)))
         else replay (rebase_after_remove start end) [] (builtup_inputs s2) (reset_live s2))"

definition on_add_region :: "string \<Rightarrow> int \<Rightarrow> int \<Rightarrow> int \<Rightarrow> editor \<Rightarrow> editor outcome" where
  "on_add_region text position' userid' mod_id s =
     (let s1 = set_last_mod_id mod_id s;
          s2 = actual_add text position' True s1
      in if Some userid' = userid s2
         then (case builtup_inputs s2 of
                 [] \<Rightarrow> Threw TypeError s2
               | expect # rest \<Rightarrow>
                   Returned (assert (expect = Add_input position' text) (s2\<lparr>builtup_inputs := rest\<rparr>)))
         else replay (rebase_after_add text position') [] (builtup_inputs s2) (reset_live s2))"

text \<open>The loops of \<open>#on_remove_property\<close> and \<open>#on_add_property\<close>: the pending property
  inputs are applied again as they stand. The \<open>remove\<close> and \<open>add\<close> cases only reassign the
  handler's parameters \<open>start\<close> and \<open>end\<close>, which nothing reads afterwards.\<close>

fun reapply_property :: "input \<Rightarrow> editor \<Rightarrow> editor" where
  "reapply_property (Remove_property_input start end property) s =
     actual_remove_property start end property False s"
| "reapply_property (Add_property_input start end property flag) s =
     actual_add_property start end property flag False s"
| "reapply_property _ s = s"

definition on_remove_property :: "int \<Rightarrow> int \<Rightarrow> string \<Rightarrow> int \<Rightarrow> int \<Rightarrow> editor \<Rightarrow> editor outcome" where
  "on_remove_property start end property userid' mod_id s =
     (let s1 = set_last_mod_id mod_id s;
          s2 = actual_remove_property start end property True s1
      in if Some userid' = userid s2
         then (case builtup_inputs s2 of
                 [] \<Rightarrow> Threw TypeError s2
               | expect # rest \<Rightarrow>
                   Returned (assert (expect = Remove_property_input start end property)
                               (s2\<lparr>builtup_inputs := rest\<rparr>)))
         else Returned (fold reapply_property (builtup_inputs s2)
                          (s2\<lparr>properties := server_properties s2\<rparr>)))"

text \<open>The assertion of \<open>#on_add_property\<close> compares the flags with \<open>==\<close>.\<close>

fun expect_add_property :: "input \<Rightarrow> int \<Rightarrow> int \<Rightarrow> string \<Rightarrow> flag \<Rightarrow> bool" where
  "expect_add_property (Add_property_input a b p f) start end property flag =
     (a = start \<and> b = end \<and> p = property \<and> loose_eq f flag)"
| "expect_add_property _ start end property flag = False"

definition on_add_property :: "int \<Rightarrow> int \<Rightarrow> string \<Rightarrow> flag \<Rightarrow> int \<Rightarrow> int \<Rightarrow> editor \<Rightarrow> editor outcome" where
  "on_add_property start end property flag userid' mod_id s =
     (let s1 = set_last_mod_id mod_id s;
          s2 = actual_add_property start end property flag True s1
      in if Some userid' = userid s2
         then (case builtup_inputs s2 of
                 [] \<Rightarrow> Threw TypeError s2
               | expect # rest \<Rightarrow>
                   Returned (assert (expect_add_property expect start end property flag)
                               (s2\<lparr>builtup_inputs := rest\<rparr>)))
         else Returned (fold reapply_property (builtup_inputs s2)
                          (s2\<lparr>properties := server_properties s2\<rparr>)))"

section \<open>Public operations\<close>

definition in_content :: "int \<Rightarrow> editor \<Rightarrow> bool" where
  "in_content p s = (p \<ge> 0 \<and> p \<le> int (length (content s)))"

definition remove :: "int \<Rightarrow> int \<Rightarrow> editor \<Rightarrow> editor outcome" where
  "remove start end s =
     (if read_only s then Returned s
      else (let s1 = assert (in_content start s) s;
                s2 = assert (in_content end s1) s1;
                s3 = push_input (Remove_input start end) s2;
                s4 = emit (Emit_remove_region start end (last_mod_id s3)) s3;
                s5 = s4\<lparr>last_mod_id_dirty := False\<rparr>
            in Returned (actual_remove start end False s5)))"

definition move_cursor :: "int \<Rightarrow> editor \<Rightarrow> editor outcome" where
  "move_cursor position' s =
     (if read_only s then Returned s
      else (let s1 = assert (in_content position' s) s;
                s2 = push_input (Cursor_input position') s1
            in case set_own_position position' s2 of
                 None \<Rightarrow> Threw TypeError s2
               | Some s3 \<Rightarrow>
                   Returned ((emit (Emit_cursor_moved position' (last_mod_id s3)) s3)
                               \<lparr>last_mod_id_dirty := False\<rparr>)))"

definition add :: "string \<Rightarrow> int \<Rightarrow> editor \<Rightarrow> editor outcome" where
  "add text position' s =
     (if read_only s then Returned s
      else (let s1 = assert (in_content position' s) s;
                s2 = push_input (Add_input position' text) s1;
                s3 = emit (Emit_add_region text position' (last_mod_id s2)) s2;
                s4 = s3\<lparr>last_mod_id_dirty := False\<rparr>;
                s5 = actual_add text position' False s4
            in case get_position s5 of
                 None \<Rightarrow> Threw TypeError s5
               | Some p \<Rightarrow>
                   if p = position' then move_cursor (position' + int (length text)) s5
                   else Returned s5))"

datatype action = Action_add | Action_remove

definition overlaps :: "int \<Rightarrow> int \<Rightarrow> range \<Rightarrow> bool" where
  "overlaps start end r = (if start \<le> fst r then fst r \<le> end else snd r \<ge> start)"

text \<open>The bucket \<open>ranges\<close> that \<open>toggle_property\<close> inspects: \<open>prop.ranges.get(flag) ?? []\<close>
  of a flagged property, \<open>prop.ranges\<close> of a flagless one.\<close>

definition ranges_of :: "flag \<Rightarrow> property_ranges \<Rightarrow> range list" where
  "ranges_of flag prop =
     (case prop of
        Flagged m \<Rightarrow> (case map_of m flag of Some ranges \<Rightarrow> ranges | None \<Rightarrow> [])
      | Flagless ranges \<Rightarrow> ranges)"

definition toggle_action :: "int \<Rightarrow> int \<Rightarrow> string \<Rightarrow> flag \<Rightarrow> property_table \<Rightarrow> action" where
  "toggle_action start end property flag props =
     (case map_of props property of
        Some prop \<Rightarrow>
          (let overlapping_ranges = filter (overlaps start end) (ranges_of flag prop)
           in if length overlapping_ranges = 1
                 \<and> fst (overlapping_ranges ! 0) \<le> start \<and> snd (overlapping_ranges ! 0) \<ge> end
              then Action_remove else Action_add)
      | None \<Rightarrow> Action_add)"

definition toggle_property :: "int \<Rightarrow> int \<Rightarrow> string \<Rightarrow> flag \<Rightarrow> editor \<Rightarrow> editor outcome" where
  "toggle_property start end property flag s =
     (if read_only s then Returned s
      else (let s1 = assert (in_content start s) s;
                s2 = assert (in_content end s1) s1;
                s3 = (case map_of (properties s2) property of
                        Some (Flagged m) \<Rightarrow> assert (flag \<noteq> Undefined) s2
                      | Some (Flagless ranges) \<Rightarrow> assert (flag = Undefined) s2
                      | None \<Rightarrow> s2);
                s4 = (case toggle_action start end property flag (properties s3) of
                        Action_add \<Rightarrow>
                          actual_add_property start end property flag False
                            (emit (Emit_add_property start end property flag (last_mod_id s3))
                               (push_input (Add_property_input start end property flag) s3))
                      | Action_remove \<Rightarrow>
                          actual_remove_property start end property False
                            (emit (Emit_remove_property start end property (last_mod_id s3))
                               (push_input (Remove_property_input start end property) s3)))
            in Returned (s4\<lparr>last_mod_id_dirty := False\<rparr>)))"

section \<open>Calls on one engine\<close>

text \<open>The calls an engine receives: the socket events bound in the constructor and the
  public operations. A call that throws ends that call only; the engine keeps the state
  it reached and takes the next call.\<close>

definition state_of :: "'a outcome \<Rightarrow> 'a" where
  "state_of r = (case r of Returned s \<Rightarrow> s | Threw e s \<Rightarrow> s)"

datatype call =
    Connected int string int
  | User_disconnected int
  | Ping
  | Cursor_moved real int int string int
  | Remove_region int int int int
  | Add_region string int int int
  | Remove_property int int string int int
  | Add_property int int string flag int int
  | Remove int int
  | Add string int
  | Move_cursor int
  | Toggle_property int int string flag

fun perform :: "call \<Rightarrow> editor \<Rightarrow> editor outcome" where
  "perform (Connected my_userid content' last_mod_id') s =
     Returned (on_connected my_userid content' last_mod_id' s)"
| "perform (User_disconnected userid') s = Returned (on_user_disconnected userid' s)"
| "perform Ping s = Returned (on_ping s)"
| "perform (Cursor_moved random position' userid' username' mod_id) s =
     on_cursor_moved random position' userid' username' mod_id s"
| "perform (Remove_region start end userid' mod_id) s = on_remove_region start end userid' mod_id s"
| "perform (Add_region text position' userid' mod_id) s = on_add_region text position' userid' mod_id s"
| "perform (Remove_property start end property userid' mod_id) s =
     on_remove_property start end property userid' mod_id s"
| "perform (Add_property start end property flag userid' mod_id) s =
     on_add_property start end property flag userid' mod_id s"
| "perform (Remove start end) s = remove start end s"
| "perform (Add text position') s = add text position' s"
| "perform (Move_cursor position') s = move_cursor position' s"
| "perform (Toggle_property start end property flag) s = toggle_property start end property flag s"

definition run :: "call list \<Rightarrow> editor \<Rightarrow> editor" where
  "run calls s = fold (\<lambda>c s'. state_of (perform c s')) calls s"

section \<open>Whiteboard (whiteboard.js): the scene and the inbound handlers\<close>

text \<open>
  The scene is the list of the children of the drawing area \<open>#area\<close>, each a \<open>path\<close> or a \<open>g\<close>
  with children. An element carries its tag, its \<open>id\<close> (empty when none was assigned) and
  its \<open>d\<close> attribute.

  The page around the scene is not among the sources and enters as a parameter: the ids
  of the elements that come before the children of the drawing area in document order
  (what precedes the area, its ancestors and the area itself, \<open>drawing-area\<close>) and the ids of
  the elements that come after the area. whiteboard.js names \<open>drawing-area\<close>, \<open>group\<close>,
  \<open>select-selector\<close>, \<open>select-pen\<close>, \<open>select-eraser\<close>, \<open>select-shape\<close> and \<open>specify-sides\<close>.

  \<open>document.getElementById\<close> returns the first element of the whole page in document order
  with the id, and nothing for the empty id. A DOM call on a node that is not a child of
  the receiver throws \<open>NotFoundError\<close>.
\<close>

datatype tag = Tag_path | Tag_g

datatype element = Element (tagName: tag) (elem_id: string) (attr_d: "string option")
  (children: "element list")

record page =
  ids_before :: "string list"
  ids_after :: "string list"

fun find_elem :: "string \<Rightarrow> element \<Rightarrow> element option"
  and find_elems :: "string \<Rightarrow> element list \<Rightarrow> element option" where
  "find_elem i (Element t eid d cs) =
     (if eid = i then Some (Element t eid d cs) else find_elems i cs)"
| "find_elems i [] = None"
| "find_elems i (e # es) =
     (case find_elem i e of Some x \<Rightarrow> Some x | None \<Rightarrow> find_elems i es)"

text \<open>What \<open>getElementById\<close> returns: nothing, an element of the scene, or an element of the
  page outside the scene.\<close>

datatype lookup = Absent | In_scene element | In_page

definition getElementById :: "page \<Rightarrow> string \<Rightarrow> element list \<Rightarrow> lookup" where
  "getElementById pg i area =
     (if i = [] then Absent
      else if i \<in> set (ids_before pg) then In_page
      else (case find_elems i area of
              Some e \<Rightarrow> In_scene e
            | None \<Rightarrow> if i \<in> set (ids_after pg) then In_page else Absent))"

text \<open>A mutation of the node of the scene \<open>getElementById\<close> returned: \<open>f\<close> gives what stands in
  its place (nothing when the node is removed).\<close>

fun modify_elem :: "string \<Rightarrow> (element \<Rightarrow> element list) \<Rightarrow> element \<Rightarrow> element list"
  and modify_elems :: "string \<Rightarrow> (element \<Rightarrow> element list) \<Rightarrow> element list \<Rightarrow> element list" where
  "modify_elem i f (Element t eid d cs) =
     (if eid = i then f (Element t eid d cs) else [Element t eid d (modify_elems i f cs)])"
| "modify_elems i f [] = []"
| "modify_elems i f (e # es) =
     (if find_elem i e \<noteq> None then modify_elem i f e @ es else e # modify_elems i f es)"

text \<open>The index among the children of \<open>#area\<close> of the first element of the scene with the
  id; \<open>None\<close> when that element lies deeper (or there is none).\<close>

fun child_index :: "string \<Rightarrow> element list \<Rightarrow> nat option" where
  "child_index i [] = None"
| "child_index i (e # es) =
     (if elem_id e = i then Some 0
      else if find_elem i e \<noteq> None then None
      else map_option Suc (child_index i es))"

text \<open>What a handler does: it returns or throws with the scene it leaves, or it acts on an
  element of the page outside the scene. The latter depends on the markup of the page and
  is not followed further.\<close>

datatype effect = In_area "element list outcome" | On_page

definition on_draw :: "page \<Rightarrow> string \<Rightarrow> string \<Rightarrow> element list \<Rightarrow> element list" where
  "on_draw pg i path area =
     (if getElementById pg i area \<noteq> Absent then area
      else area @ [Element Tag_path i (Some path) []])"

definition on_remove :: "page \<Rightarrow> string \<Rightarrow> element list \<Rightarrow> effect" where
  "on_remove pg i area =
     (case getElementById pg i area of
        Absent \<Rightarrow> In_area (Returned area)
      | In_scene e \<Rightarrow> In_area (Returned (modify_elems i (\<lambda>e. []) area))
      | In_page \<Rightarrow> On_page)"

definition on_edit :: "page \<Rightarrow> string \<Rightarrow> string \<Rightarrow> element list \<Rightarrow> effect" where
  "on_edit pg i new_path area =
     (case getElementById pg i area of
        Absent \<Rightarrow> In_area (Returned area)
      | In_scene e \<Rightarrow> In_area (Returned
          (modify_elems i (\<lambda>e. [Element (tagName e) (elem_id e) (Some new_path) (children e)]) area))
      | In_page \<Rightarrow> On_page)"

text \<open>\<open>#group\<close>: the new \<open>g\<close> is outside the document until it is appended, so a child moved
  into it is not found again. \<open>removeChild\<close> throws for a child found below the top level
  or outside the scene; the children moved so far are then in the detached group.\<close>

fun group_loop :: "page \<Rightarrow> string list \<Rightarrow> element list \<Rightarrow> element list \<Rightarrow> (element list \<times> element list) outcome" where
  "group_loop pg [] moved area = Returned (moved, area)"
| "group_loop pg (i # children_id) moved area =
     (case getElementById pg i area of
        Absent \<Rightarrow> group_loop pg children_id moved area
      | In_page \<Rightarrow> Threw NotFoundError (moved, area)
      | In_scene child \<Rightarrow>
          (case child_index i area of
             None \<Rightarrow> Threw NotFoundError (moved, area)
           | Some k \<Rightarrow> group_loop pg children_id (moved @ [child]) (take k area @ drop (Suc k) area)))"

definition group_elements :: "page \<Rightarrow> string \<Rightarrow> string list \<Rightarrow> element list \<Rightarrow> element list outcome" where
  "group_elements pg group_id children_id area =
     (case group_loop pg children_id [] area of
        Threw e (moved, area1) \<Rightarrow> Threw e area1
      | Returned (moved, area1) \<Rightarrow> Returned (area1 @ [Element Tag_g group_id None moved]))"

text \<open>\<open>#ungroup\<close>. For a group of the scene the loop moves the first child of \<open>group\<close> to the
  end of \<open>#area\<close> until none is left; \<open>rest\<close> are the children still in the group.\<close>

fun ungroup_loop :: "string \<Rightarrow> element list \<Rightarrow> element list \<Rightarrow> element list" where
  "ungroup_loop group_id [] area = area"
| "ungroup_loop group_id (child # rest) area =
     ungroup_loop group_id rest
       (modify_elems group_id (\<lambda>g. [Element (tagName g) (elem_id g) (attr_d g) rest]) area @ [child])"

definition ungroup :: "page \<Rightarrow> string \<Rightarrow> element list \<Rightarrow> effect" where
  "ungroup pg group_id area =
     (case getElementById pg group_id area of
        Absent \<Rightarrow> In_area (Threw TypeError area)
      | In_page \<Rightarrow> On_page
      | In_scene g \<Rightarrow>
          (let area1 = ungroup_loop group_id (children g) area
           in case child_index group_id area1 of
                None \<Rightarrow> In_area (Threw NotFoundError area1)
              | Some k \<Rightarrow> In_area (Returned (take k area1 @ drop (Suc k) area1))))"

section \<open>Geometry (html_utilities.js)\<close>

text \<open>
  A JavaScript number is an IEEE 754 double. It is modelled by its value: a finite
  number, an infinity or \<open>NaN\<close>. Every operation takes the exact result and rounds it to
  the nearest double, ties to the even significand: 53 bits, binary exponents from -1022
  to 1023, subnormal numbers below. A result that rounds to \<open>2^1024\<close> or beyond is an
  infinity.

  The two zeros are one value, \<open>Finite 0\<close>. They compare equal and differ only as divisors
  of a number other than zero and \<open>NaN\<close>, where the sign of the zero gives the sign of the
  infinity: there \<open>ddiv\<close> gives \<open>None\<close>. \<open>linesIntersect\<close> divides only after \<open>denom == 0\<close>
  has failed.
\<close>

datatype double = Finite real | PosInf | NegInf | NaN

text \<open>For \<open>x > 0\<close> the exponent \<open>e\<close> with \<open>2^e \<le> x < 2^(e + 1)\<close> (lemma \<open>floor_log2_bounds\<close>).\<close>

definition floor_log2 :: "real \<Rightarrow> int" where
  "floor_log2 x = (if x \<ge> 1 then bitlen \<lfloor>x\<rfloor> - 1 else - bitlen (\<lceil>1 / x\<rceil> - 1))"

definition round_ties_even :: "real \<Rightarrow> int" where
  "round_ties_even r =
     (let f = \<lfloor>r\<rfloor>
      in if r - of_int f < 1 / 2 then f
         else if r - of_int f > 1 / 2 then f + 1
         else if even f then f else f + 1)"

text \<open>The distance between neighbouring doubles at \<open>x \<noteq> 0\<close>.\<close>

definition ulp :: "real \<Rightarrow> real" where
  "ulp x = 2 powi (max (- 1022) (floor_log2 \<bar>x\<bar>) - 52)"

definition round_double :: "real \<Rightarrow> double" where
  "round_double x =
     (if x = 0 then Finite 0
      else (let y = of_int (round_ties_even (x / ulp x)) * ulp x
            in if \<bar>y\<bar> \<ge> 2 powi 1024 then (if x < 0 then NegInf else PosInf) else Finite y))"

definition infinity :: "bool \<Rightarrow> double" where
  "infinity negative = (if negative then NegInf else PosInf)"

fun dneg :: "double \<Rightarrow> double" where
  "dneg (Finite x) = Finite (- x)"
| "dneg PosInf = NegInf"
| "dneg NegInf = PosInf"
| "dneg NaN = NaN"

text \<open>The operators \<open>-\<close>, \<open>*\<close> and \<open>/\<close> on numbers.\<close>

fun dsub :: "double \<Rightarrow> double \<Rightarrow> double" where
  "dsub (Finite x) (Finite y) = round_double (x - y)"
| "dsub (Finite x) PosInf = NegInf"
| "dsub (Finite x) NegInf = PosInf"
| "dsub PosInf (Finite y) = PosInf"
| "dsub PosInf NegInf = PosInf"
| "dsub NegInf (Finite y) = NegInf"
| "dsub NegInf PosInf = NegInf"
| "dsub PosInf PosInf = NaN"
| "dsub NegInf NegInf = NaN"
| "dsub NaN y = NaN"
| "dsub x NaN = NaN"

fun dmul :: "double \<Rightarrow> double \<Rightarrow> double" where
  "dmul (Finite x) (Finite y) = round_double (x * y)"
| "dmul (Finite x) PosInf = (if x = 0 then NaN else infinity (x < 0))"
| "dmul (Finite x) NegInf = (if x = 0 then NaN else infinity (x > 0))"
| "dmul PosInf (Finite y) = (if y = 0 then NaN else infinity (y < 0))"
| "dmul NegInf (Finite y) = (if y = 0 then NaN else infinity (y > 0))"
| "dmul PosInf PosInf = PosInf"
| "dmul PosInf NegInf = NegInf"
| "dmul NegInf PosInf = NegInf"
| "dmul NegInf NegInf = PosInf"
| "dmul NaN y = NaN"
| "dmul x NaN = NaN"

fun ddiv :: "double \<Rightarrow> double \<Rightarrow> double option" where
  "ddiv (Finite x) (Finite y) =
     (if y = 0 then (if x = 0 then Some NaN else None) else Some (round_double (x / y)))"
| "ddiv (Finite x) PosInf = Some (Finite 0)"
| "ddiv (Finite x) NegInf = Some (Finite 0)"
| "ddiv PosInf (Finite y) = (if y = 0 then None else Some (infinity (y < 0)))"
| "ddiv NegInf (Finite y) = (if y = 0 then None else Some (infinity (y > 0)))"
| "ddiv PosInf PosInf = Some NaN"
| "ddiv PosInf NegInf = Some NaN"
| "ddiv NegInf PosInf = Some NaN"
| "ddiv NegInf NegInf = Some NaN"
| "ddiv NaN y = Some NaN"
| "ddiv x NaN = Some NaN"

text \<open>The comparisons \<open><=\<close>, \<open>>=\<close> and \<open>==\<close> on numbers: false whenever an operand is \<open>NaN\<close>.\<close>

fun dle :: "double \<Rightarrow> double \<Rightarrow> bool" where
  "dle (Finite x) (Finite y) = (x \<le> y)"
| "dle (Finite x) PosInf = True"
| "dle (Finite x) NegInf = False"
| "dle PosInf (Finite y) = False"
| "dle NegInf (Finite y) = True"
| "dle PosInf PosInf = True"
| "dle PosInf NegInf = False"
| "dle NegInf PosInf = True"
| "dle NegInf NegInf = True"
| "dle NaN y = False"
| "dle x NaN = False"

definition dge :: "double \<Rightarrow> double \<Rightarrow> bool" where
  "dge x y = dle y x"

definition deq :: "double \<Rightarrow> double \<Rightarrow> bool" where
  "deq x y = (x \<noteq> NaN \<and> x = y)"

type_synonym point = "double \<times> double"

text \<open>\<open>linesIntersect\<close>. The last case of the \<open>case\<close> is never taken: \<open>denom\<close> is not zero
  there (lemma \<open>ddiv_defined\<close>).\<close>

definition linesIntersect :: "point \<Rightarrow> point \<Rightarrow> point \<Rightarrow> point \<Rightarrow> bool" where
  "linesIntersect a1 a2 b1 b2 =
     (let denom = dsub (dmul (dsub (snd b2) (snd b1)) (dsub (fst a2) (fst a1)))
                       (dmul (dsub (fst b2) (fst b1)) (dsub (snd a2) (snd a1)))
      in if deq denom (Finite 0) then False
         else (case (ddiv (dsub (dmul (dsub (fst b2) (fst b1)) (dsub (snd a1) (snd b1)))
                                (dmul (dsub (snd b2) (snd b1)) (dsub (fst a1) (fst b1)))) denom,
                     ddiv (dsub (dmul (dsub (fst a2) (fst a1)) (dsub (snd a1) (snd b1)))
                                (dmul (dsub (snd a2) (snd a1)) (dsub (fst a1) (fst b1)))) denom) of
                 (Some ua, Some ub) \<Rightarrow>
                   dge ua (Finite 0) \<and> dle ua (Finite 1) \<and> dge ub (Finite 0) \<and> dle ub (Finite 1)
               | _ \<Rightarrow> False))"

definition lineIntersectsRectangle :: "point \<Rightarrow> point \<Rightarrow> point \<Rightarrow> point \<Rightarrow> bool" where
  "lineIntersectsRectangle l1 l2 r1 r2 =
     (linesIntersect l1 l2 r1 (fst r1, snd r2)
      \<or> linesIntersect l1 l2 r1 (fst r2, snd r1)
      \<or> linesIntersect l1 l2 (fst r1, snd r2) r2
      \<or> linesIntersect l1 l2 (fst r2, snd r1) r2)"

definition pointInsideRectangle :: "point \<Rightarrow> point \<Rightarrow> point \<Rightarrow> bool" where
  "pointInsideRectangle p r1 r2 =
     (dle (fst r1) (fst p) \<and> dle (fst p) (fst r2) \<and> dle (snd r1) (snd p) \<and> dle (snd p) (snd r2))"

text \<open>A point with integer coordinates.\<close>

definition int_point :: "int \<Rightarrow> int \<Rightarrow> point" where
  "int_point i j = (Finite (of_int i), Finite (of_int j))"

section \<open>Properties stated by the specification\<close>

text \<open>The invariant of the property tables: in every bucket each range has
  \<open>start < end\<close> and no two ranges overlap.\<close>

definition proper :: "range \<Rightarrow> bool" where
  "proper r = (fst r < snd r)"

definition disjoint :: "range \<Rightarrow> range \<Rightarrow> bool" where
  "disjoint r r' = (snd r \<le> fst r' \<or> snd r' \<le> fst r)"

fun pairwise_disjoint :: "range list \<Rightarrow> bool" where
  "pairwise_disjoint [] = True"
| "pairwise_disjoint (r # rs) = (list_all (disjoint r) rs \<and> pairwise_disjoint rs)"

definition bucket_invariant :: "range list \<Rightarrow> bool" where
  "bucket_invariant ranges = (list_all proper ranges \<and> pairwise_disjoint ranges)"

fun property_invariant :: "property_ranges \<Rightarrow> bool" where
  "property_invariant (Flagless ranges) = bucket_invariant ranges"
| "property_invariant (Flagged m) = list_all (\<lambda>(key, ranges). bucket_invariant ranges) m"

definition table_invariant :: "property_table \<Rightarrow> bool" where
  "table_invariant props = list_all (\<lambda>(name, prop). property_invariant prop) props"

text \<open>The callback of \<open>cutOverlaps\<close>: the pieces one range leaves.\<close>

definition cut1 :: "int \<Rightarrow> int \<Rightarrow> range \<Rightarrow> range list" where
  "cut1 start end r =
     (if fst r \<ge> start
      then (if snd r > end then [(max end (fst r), snd r)] else [])
      else (if snd r > end then [(fst r, start), (end, snd r)] else [(fst r, min start (snd r))]))"

text \<open>The two replicas, and the state in which they agree and nothing is pending
  (8, "Shadow equals drained").\<close>

definition shadow :: "editor \<Rightarrow> string \<times> (int \<times> cursor) list \<times> property_table" where
  "shadow s = (server_content s, server_cursors s, server_properties s)"

definition live :: "editor \<Rightarrow> string \<times> (int \<times> cursor) list \<times> property_table" where
  "live s = (content s, cursors s, properties s)"

definition synced :: "editor \<Rightarrow> bool" where
  "synced s = (live s = shadow s \<and> builtup_inputs s = [])"

text \<open>The merge rule in the words of the specification (4.1.4): a three-way choice over
  the whole bucket.\<close>

definition stated_merge_rule :: "int \<Rightarrow> int \<Rightarrow> range list \<Rightarrow> range list" where
  "stated_merge_rule start end ranges =
     (if list_ex (\<lambda>R. snd R = start) ranges
      then map (\<lambda>R. if snd R = start then (fst R, end) else R) ranges
      else if list_ex (\<lambda>R. fst R = end) ranges
      then map (\<lambda>R. if fst R = end then (fst R, start) else R) ranges
      else ranges @ [(start, end)])"

text \<open>What the loop does to one range.\<close>

definition touch_merge :: "int \<Rightarrow> int \<Rightarrow> range \<Rightarrow> range" where
  "touch_merge start end R =
     (if snd R = start then (fst R, end) else if fst R = end then (fst R, start) else R)"

definition covers :: "int \<Rightarrow> int \<Rightarrow> range \<Rightarrow> bool" where
  "covers start end R = (fst R \<le> start \<and> end \<le> snd R)"

text \<open>The engine of the scenarios: user 1 connected to \<open>abc\<close>, its cursor moved to 3 and
  the move echoed.\<close>

definition connected_abc :: editor where
  "connected_abc = run [Connected 1 ''abc'' 0, Move_cursor 3, Cursor_moved 0 3 1 ''Me'' 1]
     (new_Editor False)"

text \<open>A page that carries the ids whiteboard.js names, and on it a scene with a group
  inside a group, drawn and grouped by the handlers.\<close>

definition named_page :: page where
  "named_page = \<lparr>ids_before = [''select-selector'', ''select-pen'', ''select-eraser'',
       ''select-shape'', ''specify-sides'', ''group'', ''drawing-area''],
     ids_after = []\<rparr>"

definition nested_scene :: "element list" where
  "nested_scene =
     state_of (group_elements named_page ''g1'' [''g2'', ''r'']
       (on_draw named_page ''r'' ''M 2 2''
         (state_of (group_elements named_page ''g2'' [''p'', ''q'']
           (on_draw named_page ''q'' ''M 1 1'' (on_draw named_page ''p'' ''M 0 0'' []))))))"

section \<open>Auxiliary facts\<close>

lemmas prim_defs = actual_add_def actual_remove_def shift_all_fixed_points_def
  remove_empty_property_ranges_def substring_to_def substring_from_def
  add_shift_def remove_shift_def push_input_def emit_def assert_def set_last_mod_id_def
  get_position_def set_own_position_def in_content_def reset_live_def Let_def

lemmas handler_defs = on_connected_def on_user_disconnected_def on_ping_def on_cursor_moved_def
  on_remove_region_def on_add_region_def on_remove_property_def on_add_property_def
  remove_def add_def move_cursor_def toggle_property_def run_def state_of_def new_Editor_def

lemmas table_defs = shift_cursors_def shift_table_def shift_ranges_def remove_empty_table_def
  remove_property_table_def add_property_table_def actual_remove_property_def actual_add_property_def
  cutOverlaps_def merge_range_def toggle_action_def ranges_of_def overlaps_def truthy_def
  List.map_filter_def remove_rebase_def

lemma map_of_shift_cursors:
  "map_of (shift_cursors f cs) u = map_option (\<lambda>c. c\<lparr>position := f (position c)\<rparr>) (map_of cs u)"
  by (induction cs) (auto simp: shift_cursors_def)

subsection \<open>The index loop of \<open>remove_empty\<close> is a filter\<close>

lemma splice1_append: "i < length xs \<Longrightarrow> splice1 i (xs @ ys) = splice1 i xs @ ys"
  by (simp add: splice1_def)

lemma length_splice1: "i < length xs \<Longrightarrow> length (splice1 i xs) = length xs - 1"
  by (simp add: splice1_def)

lemma fold_splice1_append:
  "sorted_wrt (>) is \<Longrightarrow> \<forall>i\<in>set is. i < length xs \<Longrightarrow>
   fold splice1 is (xs @ ys) = fold splice1 is xs @ ys"
proof (induction "is" arbitrary: xs)
  case Nil
  then show ?case by simp
next
  case (Cons i "is")
  have i: "i < length xs" using Cons.prems by simp
  have "\<forall>j\<in>set is. j < length (splice1 i xs)"
    using Cons.prems i by (auto simp: length_splice1)
  moreover have "sorted_wrt (>) is" using Cons.prems by simp
  ultimately show ?case using Cons.IH i by (simp add: splice1_append)
qed

lemma to_remove_snoc:
  "to_remove (rs @ [x]) = to_remove rs @ (if fst x \<ge> snd x then [length rs] else [])"
proof -
  have "filter (\<lambda>i. fst ((rs @ [x]) ! i) \<ge> snd ((rs @ [x]) ! i)) [0..<length rs]
      = filter (\<lambda>i. fst (rs ! i) \<ge> snd (rs ! i)) [0..<length rs]"
    by (rule filter_cong) (auto simp: nth_append)
  then show ?thesis by (simp add: to_remove_def)
qed

lemma to_remove_bounds: "\<forall>i\<in>set (rev (to_remove rs)). i < length rs"
  by (simp add: to_remove_def)

lemma to_remove_sorted: "sorted_wrt (>) (rev (to_remove rs))"
  by (simp add: to_remove_def sorted_wrt_rev sorted_wrt_filter)

lemma remove_empty_filter: "remove_empty rs = filter (\<lambda>(r0, r1). r0 < r1) rs"
proof (induction rs rule: rev_induct)
  case Nil
  show ?case by (simp add: remove_empty_def to_remove_def)
next
  case (snoc x rs)
  show ?case
  proof (cases "fst x \<ge> snd x")
    case True
    then have "remove_empty (rs @ [x])
        = fold splice1 (rev (to_remove rs)) (splice1 (length rs) (rs @ [x]))"
      by (simp add: remove_empty_def to_remove_snoc)
    also have "\<dots> = remove_empty rs" by (simp add: splice1_def remove_empty_def)
    finally show ?thesis using snoc True by (cases x) simp
  next
    case False
    then have "remove_empty (rs @ [x]) = fold splice1 (rev (to_remove rs)) (rs @ [x])"
      by (simp add: remove_empty_def to_remove_snoc)
    also have "\<dots> = remove_empty rs @ [x]"
      using fold_splice1_append[OF to_remove_sorted to_remove_bounds]
      by (simp add: remove_empty_def)
    finally show ?thesis using snoc False by (cases x) simp
  qed
qed

subsection \<open>The merge loop, range by range\<close>

lemma merge_loop_eq:
  "merge_loop start end ranges w =
     (map (touch_merge start end) ranges, w \<or> list_ex (\<lambda>R. snd R = start \<or> fst R = end) ranges)"
  by (induction ranges arbitrary: w) (auto simp: touch_merge_def)

lemma touch_merge_id:
  "\<not> list_ex (\<lambda>R. snd R = start \<or> fst R = end) ranges \<Longrightarrow> map (touch_merge start end) ranges = ranges"
  by (induction ranges) (auto simp: touch_merge_def)

lemma merge_range_eq:
  "merge_range start end ranges =
     (if list_ex (\<lambda>R. snd R = start \<or> fst R = end) ranges
      then map (touch_merge start end) ranges else ranges @ [(start, end)])"
  by (simp add: merge_range_def merge_loop_eq touch_merge_id)

subsection \<open>The choice of \<open>toggle_property\<close>\<close>

lemma filter_single_iff:
  "(length (filter P xs) = 1 \<and> Q (filter P xs ! 0)) \<longleftrightarrow>
   (\<exists>us R vs. xs = us @ R # vs \<and> Q R \<and> P R \<and> (\<forall>u\<in>set (us @ vs). \<not> P u))"
proof
  assume l: "length (filter P xs) = 1 \<and> Q (filter P xs ! 0)"
  then obtain R where R: "filter P xs = [R]"
    by (cases "filter P xs") auto
  then obtain us vs where "xs = us @ R # vs" "\<forall>u\<in>set us. \<not> P u" "P R" "[] = filter P vs"
    unfolding filter_eq_Cons_iff by blast
  moreover have "\<forall>v\<in>set vs. \<not> P v" using \<open>[] = filter P vs\<close>
    by (metis filter_empty_conv)
  moreover have "Q R" using l R by simp
  ultimately have "xs = us @ R # vs \<and> Q R \<and> P R \<and> (\<forall>u\<in>set (us @ vs). \<not> P u)"
    by auto
  then show "\<exists>us R vs. xs = us @ R # vs \<and> Q R \<and> P R \<and> (\<forall>u\<in>set (us @ vs). \<not> P u)"
    by blast
next
  assume "\<exists>us R vs. xs = us @ R # vs \<and> Q R \<and> P R \<and> (\<forall>u\<in>set (us @ vs). \<not> P u)"
  then obtain us R vs where h: "xs = us @ R # vs" "Q R" "P R" "\<forall>u\<in>set (us @ vs). \<not> P u"
    by blast
  then have "filter P xs = [R]" by (auto simp: filter_empty_conv)
  then show "length (filter P xs) = 1 \<and> Q (filter P xs ! 0)" using h by simp
qed

lemma toggle_action_remove_iff:
  "toggle_action start end property flag props = Action_remove \<longleftrightarrow>
     (\<exists>prop us R vs. map_of props property = Some prop \<and> ranges_of flag prop = us @ R # vs
        \<and> covers start end R \<and> overlaps start end R
        \<and> (\<forall>u\<in>set (us @ vs). \<not> overlaps start end u))"
proof (cases "map_of props property")
  case None
  then show ?thesis by (simp add: toggle_action_def)
next
  case (Some pr)
  have "toggle_action start end property flag props = Action_remove \<longleftrightarrow>
      (length (filter (overlaps start end) (ranges_of flag pr)) = 1
        \<and> covers start end (filter (overlaps start end) (ranges_of flag pr) ! 0))"
    using Some by (auto simp: toggle_action_def covers_def Let_def)
  then show ?thesis using Some
    unfolding filter_single_iff by auto
qed

subsection \<open>The shadow replica under the region and property events\<close>

lemma apply_input_shadow: "shadow (state_of (apply_input i s)) = shadow s"
  by (cases i)
     (auto simp: shadow_def state_of_def prim_defs actual_add_property_def
        actual_remove_property_def split: option.splits)

lemma replay_shadow: "shadow (state_of (replay rb dn is s)) = shadow s"
proof (induction "is" arbitrary: dn s)
  case Nil
  then show ?case by (simp add: state_of_def)
next
  case (Cons i rest)
  let ?s1 = "s\<lparr>builtup_inputs := dn @ rb i # rest\<rparr>"
  have a: "shadow (state_of (apply_input (rb i) ?s1)) = shadow s"
    using apply_input_shadow[of "rb i" ?s1] by (simp add: shadow_def)
  show ?case
  proof (cases "apply_input (rb i) ?s1")
    case (Returned s2)
    then show ?thesis using Cons.IH[of "dn @ [rb i]" s2] a
      by (simp add: Let_def state_of_def)
  next
    case (Threw e s2)
    then show ?thesis using a by (simp add: Let_def state_of_def)
  qed
qed

lemma reapply_property_shadow: "shadow (fold reapply_property is s) = shadow s"
proof (induction "is" arbitrary: s)
  case Nil
  then show ?case by simp
next
  case (Cons i rest)
  have "shadow (reapply_property i s) = shadow s"
    by (cases i) (simp_all add: shadow_def actual_add_property_def actual_remove_property_def)
  then show ?case using Cons.IH by simp
qed

text \<open>The handlers of \<open>add_region\<close>, \<open>remove_region\<close>, \<open>add_property\<close> and \<open>remove_property\<close>
  apply the event to the shadow replica with the coordinates the server sent, for an echo
  and for a remote event alike, whether the handler returns or throws.\<close>

lemma shadow_applied_first:
  "shadow (state_of (on_add_region text position' userid' mod_id s))
     = shadow (actual_add text position' True s)
   \<and> shadow (state_of (on_remove_region start end userid' mod_id s))
     = shadow (actual_remove start end True s)
   \<and> shadow (state_of (on_add_property start end property flag userid' mod_id s))
     = shadow (actual_add_property start end property flag True s)
   \<and> shadow (state_of (on_remove_property start end property userid' mod_id s))
     = shadow (actual_remove_property start end property True s)"
proof (intro conjI)
  show "shadow (state_of (on_add_region text position' userid' mod_id s))
     = shadow (actual_add text position' True s)"
    using replay_shadow[of "rebase_after_add text position'" "[]"]
    by (auto simp: on_add_region_def Let_def state_of_def shadow_def prim_defs split: list.splits)
  show "shadow (state_of (on_remove_region start end userid' mod_id s))
     = shadow (actual_remove start end True s)"
    using replay_shadow[of "rebase_after_remove start end" "[]"]
    by (auto simp: on_remove_region_def Let_def state_of_def shadow_def prim_defs split: list.splits)
  show "shadow (state_of (on_add_property start end property flag userid' mod_id s))
     = shadow (actual_add_property start end property flag True s)"
    using reapply_property_shadow
    by (auto simp: on_add_property_def Let_def state_of_def shadow_def prim_defs
          actual_add_property_def split: list.splits)
  show "shadow (state_of (on_remove_property start end property userid' mod_id s))
     = shadow (actual_remove_property start end property True s)"
    using reapply_property_shadow
    by (auto simp: on_remove_property_def Let_def state_of_def shadow_def prim_defs
          actual_remove_property_def split: list.splits)
qed

text \<open>The handler of a remote \<open>cursor_moved\<close> stores in the shadow table the position
  rebased against the whole queue.\<close>

lemma remote_cursor_shadow_position:
  assumes "Some userid' \<noteq> userid s"
  shows "\<exists>s'. on_cursor_moved random position' userid' username' mod_id s = Returned s'
     \<and> map_option position (map_of (server_cursors s') userid')
         = Some (fold rebase_position (builtup_inputs s) position')"
  using assms
  by (auto simp: on_cursor_moved_def set_last_mod_id_def Let_def update_conv' split: option.splits)

subsection \<open>Where live and shadow do agree\<close>

text \<open>A remote \<open>add_region\<close> or \<open>remove_region\<close> that finds the queue empty makes the live
  replica a copy of the shadow replica.\<close>

lemma remote_region_resyncs:
  assumes "builtup_inputs s = []" and "Some userid' \<noteq> userid s"
  shows "\<exists>s1 s2. on_add_region text position' userid' mod_id s = Returned s1 \<and> synced s1
       \<and> on_remove_region start end userid' mod_id s = Returned s2 \<and> synced s2"
  using assms
  by (simp add: on_add_region_def on_remove_region_def synced_def live_def shadow_def prim_defs)

lemma synced_iff:
  "synced s \<longleftrightarrow> content s = server_content s \<and> cursors s = server_cursors s
     \<and> properties s = server_properties s \<and> builtup_inputs s = []"
  by (auto simp: synced_def live_def shadow_def)

text \<open>A public operation on a synced engine, followed by the echo of what it emitted and no
  other event in between, ends in a synced engine again.\<close>

lemma round_trip_remove:
  assumes "synced s" and "\<not> read_only s" and "userid s = Some u"
  shows "synced (run [Remove start end, Remove_region start end u mod_id] s)"
proof -
  have e: "content s = server_content s" "cursors s = server_cursors s"
    "properties s = server_properties s" "builtup_inputs s = []"
    using assms(1) by (simp_all add: synced_iff)
  let ?t = "state_of (remove start end s)"
  have t: "builtup_inputs ?t = [Remove_input start end]" "userid ?t = Some u"
    "content ?t = substring_to start (server_content s) @ substring_from end (server_content s)"
    "cursors ?t = shift_cursors (remove_shift start end) (server_cursors s)"
    "properties ?t = remove_empty_table (shift_table (remove_shift start end) (server_properties s))"
    "server_content ?t = server_content s" "server_cursors ?t = server_cursors s"
    "server_properties ?t = server_properties s"
    using assms(2,3) e by (simp_all add: remove_def state_of_def prim_defs)
  have "synced (state_of (on_remove_region start end u mod_id ?t))"
    using t by (simp add: on_remove_region_def state_of_def synced_iff prim_defs)
  then show ?thesis by (simp add: run_def)
qed

lemma round_trip_move_cursor:
  assumes "synced s" and "\<not> read_only s" and "userid s = Some u"
    and "map_of (cursors s) u = Some c"
  shows "synced (run [Move_cursor position', Cursor_moved random position' u username' mod_id] s)"
proof -
  have e: "content s = server_content s" "cursors s = server_cursors s"
    "properties s = server_properties s" "builtup_inputs s = []"
    using assms(1) by (simp_all add: synced_iff)
  have c': "map_of (server_cursors s) u = Some c" using assms(4) e by simp
  let ?t = "state_of (move_cursor position' s)"
  have t: "builtup_inputs ?t = [Cursor_input position']" "userid ?t = Some u"
    "content ?t = server_content s"
    "cursors ?t = AList.update u (c\<lparr>position := position'\<rparr>) (server_cursors s)"
    "properties ?t = server_properties s"
    "server_content ?t = server_content s" "server_cursors ?t = server_cursors s"
    "server_properties ?t = server_properties s"
    using assms(2,3) c' e by (simp_all add: move_cursor_def state_of_def prim_defs)
  have "synced (state_of (on_cursor_moved random position' u username' mod_id ?t))"
    using t c' by (simp add: on_cursor_moved_def state_of_def synced_iff prim_defs)
  then show ?thesis by (simp add: run_def)
qed

lemma round_trip_add:
  assumes "synced s" and "\<not> read_only s" and "userid s = Some u"
    and "map_of (cursors s) u = Some c"
  shows "synced (run (if position c = position'
                     then [Add text position', Add_region text position' u mod_id,
                           Cursor_moved random (position' + int (length text)) u username' mod_id']
                     else [Add text position', Add_region text position' u mod_id]) s)"
proof -
  have e: "content s = server_content s" "cursors s = server_cursors s"
    "properties s = server_properties s" "builtup_inputs s = []"
    using assms(1) by (simp_all add: synced_iff)
  have c': "map_of (server_cursors s) u = Some c" using assms(4) e by simp
  define s0 where "s0 = assert (in_content position' s) s"
  define s5 where "s5 = actual_add text position' False
     ((emit (Emit_add_region text position' (last_mod_id (push_input (Add_input position' text) s0)))
         (push_input (Add_input position' text) s0))\<lparr>last_mod_id_dirty := False\<rparr>)"
  have g: "get_position s5 = Some (add_shift text position' (position c))"
    using assms(2,3) c' e by (simp add: s5_def s0_def prim_defs map_of_shift_cursors)
  have f: "builtup_inputs s5 = [Add_input position' text]" "userid s5 = Some u"
    "\<not> read_only s5"
    "content s5 = substring_to position' (server_content s) @ text @ substring_from position' (server_content s)"
    "cursors s5 = shift_cursors (add_shift text position') (server_cursors s)"
    "properties s5 = shift_table (add_shift text position') (server_properties s)"
    "server_content s5 = server_content s" "server_cursors s5 = server_cursors s"
    "server_properties s5 = server_properties s"
    using assms(2,3) e by (simp_all add: s5_def s0_def prim_defs)
  show ?thesis
  proof (cases "position c = position'")
    case False
    then have ne: "add_shift text position' (position c) \<noteq> position'"
      by (simp add: add_shift_def)
    have a: "add text position' s = Returned s5"
      using assms(2) g ne unfolding add_def Let_def s0_def[symmetric] s5_def[symmetric]
      by simp
    have "synced (state_of (on_add_region text position' u mod_id s5))"
      using f by (simp add: on_add_region_def state_of_def synced_iff prim_defs)
    then show ?thesis using a False by (simp add: run_def state_of_def)
  next
    case True
    then have g': "get_position s5 = Some position'" using g by (simp add: add_shift_def)
    have a: "add text position' s = move_cursor (position' + int (length text)) s5"
      using assms(2) g' unfolding add_def Let_def s0_def[symmetric] s5_def[symmetric]
      by simp
    have m: "map_of (cursors s5) u = Some c"
      using f(5) c' True by (simp add: map_of_shift_cursors add_shift_def)
    define s6 where "s6 = state_of (move_cursor (position' + int (length text)) s5)"
    have f6: "builtup_inputs s6 = [Add_input position' text, Cursor_input (position' + int (length text))]"
      "userid s6 = Some u"
      "content s6 = substring_to position' (server_content s) @ text @ substring_from position' (server_content s)"
      "cursors s6 = AList.update u (c\<lparr>position := position' + int (length text)\<rparr>)
                      (shift_cursors (add_shift text position') (server_cursors s))"
      "properties s6 = shift_table (add_shift text position') (server_properties s)"
      "server_content s6 = server_content s" "server_cursors s6 = server_cursors s"
      "server_properties s6 = server_properties s"
      using f m by (simp_all add: s6_def move_cursor_def state_of_def prim_defs)
    define s7 where "s7 = state_of (on_add_region text position' u mod_id s6)"
    have f7: "builtup_inputs s7 = [Cursor_input (position' + int (length text))]"
      "userid s7 = Some u"
      "content s7 = server_content s7"
      "cursors s7 = AList.update u (c\<lparr>position := position' + int (length text)\<rparr>) (server_cursors s7)"
      "properties s7 = server_properties s7"
      "map_of (server_cursors s7) u = Some c"
      using f6 c' True
      by (simp_all add: s7_def on_add_region_def state_of_def prim_defs map_of_shift_cursors)
    have "synced (state_of (on_cursor_moved random (position' + int (length text)) u username' mod_id' s7))"
      using f7 by (simp add: on_cursor_moved_def state_of_def synced_iff prim_defs)
    then show ?thesis using a True by (simp add: run_def s6_def s7_def)
  qed
qed

lemma round_trip_toggle_property:
  assumes "synced s" and "\<not> read_only s" and "userid s = Some u"
  shows "synced (run [Toggle_property start end property flag,
                    case toggle_action start end property flag (properties s) of
                      Action_add \<Rightarrow> Add_property start end property flag u mod_id
                    | Action_remove \<Rightarrow> Remove_property start end property u mod_id] s)"
proof -
  have e: "content s = server_content s" "cursors s = server_cursors s"
    "properties s = server_properties s" "builtup_inputs s = []"
    using assms(1) by (simp_all add: synced_iff)
  define s2 where "s2 = assert (in_content end (assert (in_content start s) s))
                          (assert (in_content start s) s)"
  define s3 where "s3 =
     (case map_of (properties s2) property of
        Some (Flagged m) \<Rightarrow> assert (flag \<noteq> Undefined) s2
      | Some (Flagless ranges) \<Rightarrow> assert (flag = Undefined) s2
      | None \<Rightarrow> s2)"
  have f3: "properties s3 = server_properties s" "builtup_inputs s3 = []" "userid s3 = Some u"
    "content s3 = server_content s" "cursors s3 = server_cursors s"
    "server_content s3 = server_content s" "server_cursors s3 = server_cursors s"
    "server_properties s3 = server_properties s"
    using e assms(3)
    by (auto simp: s3_def s2_def assert_def split: option.splits property_ranges.splits)
  let ?t = "state_of (toggle_property start end property flag s)"
  show ?thesis
  proof (cases "toggle_action start end property flag (server_properties s)")
    case Action_add
    have t: "builtup_inputs ?t = [Add_property_input start end property flag]" "userid ?t = Some u"
      "content ?t = server_content s" "cursors ?t = server_cursors s"
      "properties ?t = add_property_table start end property flag (server_properties s)"
      "server_content ?t = server_content s" "server_cursors ?t = server_cursors s"
      "server_properties ?t = server_properties s"
      using assms(2) f3 Action_add
      unfolding toggle_property_def Let_def s2_def[symmetric] s3_def[symmetric]
      by (simp_all add: state_of_def actual_add_property_def emit_def push_input_def)
    have "synced (state_of (on_add_property start end property flag u mod_id ?t))"
      using t by (simp add: on_add_property_def state_of_def synced_iff actual_add_property_def
            set_last_mod_id_def assert_def Let_def)
    then show ?thesis using Action_add e by (simp add: run_def)
  next
    case Action_remove
    have t: "builtup_inputs ?t = [Remove_property_input start end property]" "userid ?t = Some u"
      "content ?t = server_content s" "cursors ?t = server_cursors s"
      "properties ?t = remove_property_table start end property (server_properties s)"
      "server_content ?t = server_content s" "server_cursors ?t = server_cursors s"
      "server_properties ?t = server_properties s"
      using assms(2) f3 Action_remove
      unfolding toggle_property_def Let_def s2_def[symmetric] s3_def[symmetric]
      by (simp_all add: state_of_def actual_remove_property_def emit_def push_input_def)
    have "synced (state_of (on_remove_property start end property u mod_id ?t))"
      using t by (simp add: on_remove_property_def state_of_def synced_iff actual_remove_property_def
            set_last_mod_id_def assert_def Let_def)
    then show ?thesis using Action_remove e by (simp add: run_def)
  qed
qed


subsection \<open>The range invariant under the primitives\<close>

text \<open>Shifting by an insertion or a removal, and clearing \<open>[start, end)\<close> with
  \<open>start \<le> end\<close>, keep every bucket proper and pairwise disjoint. So does adding
  \<open>[start, end)\<close> with \<open>start < end\<close>, unless a range of the cleared bucket starts at
  \<open>end\<close>.\<close>

lemma pairwise_disjoint_append:
  "pairwise_disjoint (xs @ ys) \<longleftrightarrow>
     pairwise_disjoint xs \<and> pairwise_disjoint ys \<and> (\<forall>x\<in>set xs. \<forall>y\<in>set ys. disjoint x y)"
  by (induction xs) (auto simp: list_all_iff)

lemma pairwise_disjoint_filter: "pairwise_disjoint rs \<Longrightarrow> pairwise_disjoint (filter P rs)"
  by (induction rs) (auto simp: list_all_iff)

lemma pairwise_disjoint_map_mono:
  assumes "mono f" and "pairwise_disjoint rs"
  shows "pairwise_disjoint (map (\<lambda>(r0, r1). (f r0, f r1)) rs)"
  using assms(2)
proof (induction rs)
  case Nil
  then show ?case by simp
next
  case (Cons r rs)
  have "disjoint r x \<Longrightarrow> disjoint (f (fst r), f (snd r)) (f (fst x), f (snd x))" for x
    using assms(1) by (auto simp: disjoint_def mono_def)
  then show ?case using Cons by (auto simp: list_all_iff case_prod_beta)
qed

lemma mono_remove_shift: "mono (remove_shift start end)"
  by (auto simp: mono_def remove_shift_def min_def)

lemma strict_mono_add_shift: "strict_mono (add_shift text position')"
  by (auto simp: strict_mono_def add_shift_def)

lemma bucket_invariant_remove_shift:
  "bucket_invariant rs \<Longrightarrow>
   bucket_invariant (remove_empty (shift_ranges (remove_shift start end) rs))"
  using pairwise_disjoint_map_mono[OF mono_remove_shift, of rs start "end"]
  by (auto simp: bucket_invariant_def remove_empty_filter shift_ranges_def list_all_iff proper_def
        pairwise_disjoint_filter)

lemma bucket_invariant_add_shift:
  assumes "bucket_invariant rs"
  shows "bucket_invariant (shift_ranges (add_shift text position') rs)"
proof -
  have "mono (add_shift text position')"
    using strict_mono_add_shift by (rule strict_mono_mono)
  then have "pairwise_disjoint (shift_ranges (add_shift text position') rs)"
    using assms pairwise_disjoint_map_mono by (simp add: bucket_invariant_def shift_ranges_def)
  moreover have "list_all proper (shift_ranges (add_shift text position') rs)"
    using assms strict_mono_add_shift[of _ position']
    by (auto simp: bucket_invariant_def shift_ranges_def list_all_iff proper_def strict_mono_def)
  ultimately show ?thesis by (simp add: bucket_invariant_def)
qed

lemma cutOverlaps_cut1: "cutOverlaps start end rs = concat (map (cut1 start end) rs)"
proof -
  have "(\<lambda>(r0, r1). if r0 \<ge> start
      then (if r1 > end then [(max end r0, r1)] else [])
      else (if r1 > end then [(r0, start), (end, r1)] else [(r0, min start r1)])) = cut1 start end"
    by (auto simp: cut1_def fun_eq_iff)
  then show ?thesis by (simp add: cutOverlaps_def)
qed

lemma cut1_sub:
  "start \<le> end \<Longrightarrow> proper r \<Longrightarrow> p \<in> set (cut1 start end r) \<Longrightarrow>
   proper p \<and> fst r \<le> fst p \<and> snd p \<le> snd r"
  by (auto simp: cut1_def proper_def split: if_splits)

lemma cut1_disjoint:
  "start \<le> end \<Longrightarrow> pairwise_disjoint (cut1 start end r)"
  by (auto simp: cut1_def disjoint_def)

lemma bucket_invariant_cutOverlaps:
  assumes "start \<le> end" and "bucket_invariant rs"
  shows "bucket_invariant (cutOverlaps start end rs)"
  using assms(2)
proof (induction rs)
  case Nil
  then show ?case by (simp add: cutOverlaps_cut1 bucket_invariant_def)
next
  case (Cons r rs)
  have pr: "proper r" and rest: "bucket_invariant rs"
    and dj: "\<forall>x\<in>set rs. disjoint r x" and prs: "\<forall>x\<in>set rs. proper x"
    using Cons.prems by (auto simp: bucket_invariant_def list_all_iff)
  have ih: "bucket_invariant (cutOverlaps start end rs)" using Cons.IH rest by simp
  have cross: "disjoint p q"
    if "p \<in> set (cut1 start end r)" "q \<in> set (cutOverlaps start end rs)" for p q
  proof -
    from that(2) obtain x where x: "x \<in> set rs" "q \<in> set (cut1 start end x)"
      by (auto simp: cutOverlaps_cut1)
    have "fst r \<le> fst p \<and> snd p \<le> snd r" using cut1_sub[OF assms(1) pr that(1)] by simp
    moreover have "fst x \<le> fst q \<and> snd q \<le> snd x"
      using cut1_sub[OF assms(1), of x q] x prs by simp
    moreover have "disjoint r x" using dj x by simp
    ultimately show ?thesis by (auto simp: disjoint_def)
  qed
  have "list_all proper (cut1 start end r)"
    using cut1_sub[OF assms(1) pr] by (auto simp: list_all_iff)
  then show ?case
    using ih cross cut1_disjoint[OF assms(1)]
    by (auto simp: cutOverlaps_cut1 bucket_invariant_def pairwise_disjoint_append)
qed

lemma cut1_clears: "p \<in> set (cut1 start end r) \<Longrightarrow> disjoint p (start, end)"
  by (auto simp: cut1_def disjoint_def split: if_splits)

lemma cutOverlaps_clears: "p \<in> set (cutOverlaps start end rs) \<Longrightarrow> disjoint p (start, end)"
  by (auto simp: cutOverlaps_cut1 cut1_clears)

lemma pairwise_disjoint_map:
  "pairwise_disjoint rs \<Longrightarrow>
   (\<forall>x\<in>set rs. \<forall>y\<in>set rs. disjoint x y \<longrightarrow> disjoint (f x) (f y)) \<Longrightarrow>
   pairwise_disjoint (map f rs)"
  by (induction rs) (auto simp: list_all_iff)

lemma disjoint_sym: "disjoint x y \<Longrightarrow> disjoint y x"
  by (auto simp: disjoint_def)

lemma merge_range_invariant:
  assumes "start < end" and "bucket_invariant rs"
    and "\<forall>x\<in>set rs. disjoint x (start, end)"
    and "\<not> list_ex (\<lambda>R. fst R = end) rs"
  shows "bucket_invariant (merge_range start end rs)"
proof (cases "list_ex (\<lambda>R. snd R = start \<or> fst R = end) rs")
  case False
  then show ?thesis using assms
    by (auto simp: merge_range_eq bucket_invariant_def pairwise_disjoint_append proper_def)
next
  case True
  have pr: "\<forall>x\<in>set rs. proper x" and pd: "pairwise_disjoint rs"
    using assms(2) by (auto simp: bucket_invariant_def list_all_iff)
  have ne: "\<forall>x\<in>set rs. fst x \<noteq> end" using assms(4) by (auto simp: list_ex_iff)
  have tm: "touch_merge start end x = (if snd x = start then (fst x, end) else x)"
    if "x \<in> set rs" for x
    using ne that by (auto simp: touch_merge_def)
  have "disjoint (touch_merge start end x) (touch_merge start end y)"
    if "x \<in> set rs" "y \<in> set rs" "disjoint x y" for x y
  proof -
    have "disjoint x (start, end)" "disjoint y (start, end)" "proper x" "proper y"
      using that assms(3) pr by auto
    then show ?thesis
      using that(3) assms(1) tm[OF that(1)] tm[OF that(2)]
      by (auto simp: disjoint_def proper_def split: if_splits)
  qed
  then have "pairwise_disjoint (map (touch_merge start end) rs)"
    using pd by (intro pairwise_disjoint_map) auto
  moreover have "list_all proper (map (touch_merge start end) rs)"
    using pr assms(1) tm by (auto simp: list_all_iff proper_def)
  ultimately show ?thesis using True by (simp add: merge_range_eq bucket_invariant_def)
qed

lemma list_all_update:
  "list_all P xs \<Longrightarrow> P (k, v) \<Longrightarrow> list_all P (AList.update k v xs)"
  by (induction xs) auto

lemma list_all_delete: "list_all P xs \<Longrightarrow> list_all P (AList.delete k xs)"
  by (simp add: AList.delete_eq list_all_iff)

lemma table_invariant_lookup:
  "table_invariant props \<Longrightarrow> map_of props property = Some p \<Longrightarrow> property_invariant p"
  by (auto simp: table_invariant_def list_all_iff dest: map_of_SomeD)

lemma table_invariant_add_shift:
  assumes "table_invariant props"
  shows "table_invariant (shift_table (add_shift text position') props)"
proof -
  have "property_invariant (shift_property (add_shift text position') p)"
    if "property_invariant p" for p
    using that by (cases p) (auto simp: list_all_iff bucket_invariant_add_shift)
  then show ?thesis using assms
    by (auto simp: table_invariant_def shift_table_def list_all_iff)
qed

lemma property_invariant_remove_shift:
  assumes "property_invariant p"
    and "remove_empty_prop (shift_property (remove_shift start end) p) = Some p'"
  shows "property_invariant p'"
proof (cases p)
  case (Flagless rs)
  then show ?thesis using assms
    by (auto simp: Let_def bucket_invariant_remove_shift split: if_splits)
next
  case (Flagged m)
  then show ?thesis using assms
    by (fastforce simp: Let_def list_all_iff intro: bucket_invariant_remove_shift split: if_splits)
qed

lemma table_invariant_remove_shift:
  assumes "table_invariant props"
  shows "table_invariant (remove_empty_table (shift_table (remove_shift start end) props))"
  using assms property_invariant_remove_shift
  by (fastforce simp: table_invariant_def remove_empty_table_def shift_table_def list_all_iff
        List.map_filter_def)

lemma table_invariant_remove_property:
  assumes "start \<le> end" and "table_invariant props"
  shows "table_invariant (remove_property_table start end property props)"
proof (cases "map_of props property")
  case None
  then show ?thesis using assms by (simp add: remove_property_table_def)
next
  case (Some pr)
  have inv: "property_invariant pr" using table_invariant_lookup[OF assms(2) Some] .
  show ?thesis
  proof (cases pr)
    case (Flagless rs)
    then show ?thesis using Some inv assms
      unfolding remove_property_table_def table_invariant_def
      by (auto simp: Let_def intro!: list_all_update list_all_delete
            bucket_invariant_cutOverlaps)
  next
    case (Flagged m)
    have "list_all (\<lambda>(key, ranges). bucket_invariant ranges)
           (filter (\<lambda>(key, new_ranges). new_ranges \<noteq> [])
              (map (\<lambda>(key, ranges). (key, cutOverlaps start end ranges)) m))"
      using inv Flagged assms(1)
      by (fastforce simp: list_all_iff intro: bucket_invariant_cutOverlaps)
    then show ?thesis using Some Flagged assms
      unfolding remove_property_table_def table_invariant_def
      by (auto simp: Let_def intro!: list_all_update list_all_delete)
  qed
qed

lemma cleared_bucket_disjoint:
  assumes "map_of (remove_property_table start end property props) property = Some cleared"
  shows "\<forall>x\<in>set (ranges_of flag cleared). disjoint x (start, end)"
proof (cases "map_of props property")
  case None
  then show ?thesis using assms by (simp add: remove_property_table_def)
next
  case (Some p)
  show ?thesis
  proof (cases p)
    case (Flagless rs)
    then have "cleared = Flagless (cutOverlaps start end rs)"
      using assms Some
      by (auto simp: remove_property_table_def Let_def update_conv' delete_conv' split: if_splits)
    then show ?thesis by (auto simp: ranges_of_def cutOverlaps_clears)
  next
    case (Flagged m)
    then have c: "cleared = Flagged (filter (\<lambda>(key, new_ranges). new_ranges \<noteq> [])
                      (map (\<lambda>(key, ranges). (key, cutOverlaps start end ranges)) m))"
      using assms Some
      by (auto simp: remove_property_table_def Let_def update_conv' delete_conv' split: if_splits)
    show ?thesis
    proof (cases "map_of (filter (\<lambda>(key, new_ranges). new_ranges \<noteq> [])
                      (map (\<lambda>(key, ranges). (key, cutOverlaps start end ranges)) m)) flag")
      case None
      then show ?thesis using c by (simp add: ranges_of_def)
    next
      case (Some rs)
      then obtain rs0 where "rs = cutOverlaps start end rs0"
        by (auto dest!: map_of_SomeD)
      then show ?thesis using c Some by (auto simp: ranges_of_def cutOverlaps_clears)
    qed
  qed
qed

lemma table_invariant_add_property:
  assumes "start < end" and "table_invariant props"
    and "\<forall>cleared. map_of (remove_property_table start end property props) property = Some cleared
           \<longrightarrow> \<not> list_ex (\<lambda>R. fst R = end) (ranges_of flag cleared)"
  shows "table_invariant (add_property_table start end property flag props)"
proof (cases "map_of props property")
  case None
  have "bucket_invariant [(start, end)]"
    using assms(1) by (simp add: bucket_invariant_def proper_def)
  then show ?thesis using None assms(2)
    unfolding add_property_table_def table_invariant_def
    by (auto intro!: list_all_update)
next
  case (Some p)
  let ?props1 = "remove_property_table start end property props"
  have inv1: "table_invariant ?props1"
    using table_invariant_remove_property[of start "end" props property] assms(1,2) by simp
  show ?thesis
  proof (cases "map_of ?props1 property")
    case None
    then show ?thesis using Some inv1 by (simp add: add_property_table_def)
  next
    case cl: (Some cleared)
    have pc: "property_invariant cleared" using table_invariant_lookup[OF inv1 cl] .
    have dj: "\<forall>x\<in>set (ranges_of flag cleared). disjoint x (start, end)"
      using cleared_bucket_disjoint[OF cl] .
    have nt: "\<not> list_ex (\<lambda>R. fst R = end) (ranges_of flag cleared)"
      using assms(3) cl by simp
    have bi: "bucket_invariant (ranges_of flag cleared)"
      using pc by (cases cleared)
        (auto simp: ranges_of_def list_all_iff bucket_invariant_def dest!: map_of_SomeD
           split: option.splits)
    have mi: "bucket_invariant (merge_range start end (ranges_of flag cleared))"
      using merge_range_invariant[OF assms(1) bi dj nt] .
    show ?thesis
    proof (cases cleared)
      case (Flagless rs)
      then show ?thesis using Some cl inv1 mi
        unfolding add_property_table_def table_invariant_def
        by (auto simp: ranges_of_def intro!: list_all_update)
    next
      case (Flagged m)
      have lm: "list_all (\<lambda>(key, ranges). bucket_invariant ranges) m"
        using pc Flagged by simp
      have "list_all (\<lambda>(key, ranges). bucket_invariant ranges)
              (AList.update flag (merge_range start end (ranges_of flag cleared))
                 (if map_of m flag = None then AList.update flag [] m else m))"
        using lm mi by (auto intro!: list_all_update simp: bucket_invariant_def)
      moreover have "ranges_of flag cleared =
          (case map_of (if map_of m flag = None then AList.update flag [] m else m) flag of
             Some rs \<Rightarrow> rs | None \<Rightarrow> [])"
        using Flagged by (auto simp: ranges_of_def update_conv' split: option.splits)
      ultimately show ?thesis using Some cl inv1 Flagged
        unfolding add_property_table_def table_invariant_def
        by (auto simp: Let_def intro!: list_all_update)
    qed
  qed
qed

subsection \<open>Further runs of the engine\<close>

text \<open>A remote \<open>add_property\<close> that arrives while an insert is pending resets the live table
  from the shadow table and does not shift it by the pending insert; once the insert is
  echoed the two tables differ.\<close>

lemma live_shadow_properties_diverge:
  "builtup_inputs (run [Connected 1 ''abc'' 0, Add ''X'' 0, Add_property 1 2 ''b'' Null 2 1,
       Add_region ''X'' 0 1 2, Cursor_moved 0 1 1 ''Me'' 3] (new_Editor False)) = []
   \<and> properties (run [Connected 1 ''abc'' 0, Add ''X'' 0, Add_property 1 2 ''b'' Null 2 1,
       Add_region ''X'' 0 1 2, Cursor_moved 0 1 1 ''Me'' 3] (new_Editor False))
       = [(''b'', Flagless [(1, 2)])]
   \<and> server_properties (run [Connected 1 ''abc'' 0, Add ''X'' 0, Add_property 1 2 ''b'' Null 2 1,
       Add_region ''X'' 0 1 2, Cursor_moved 0 1 1 ''Me'' 3] (new_Editor False))
       = [(''b'', Flagless [(2, 3)])]"
  by (simp add: handler_defs prim_defs table_defs remove_empty_filter)

text \<open>A pending \<open>add_property\<close> whose range a remote removal collapses is applied again with
  \<open>start = end\<close>, and the empty range is stored.\<close>

lemma rebased_empty_range_is_stored:
  "properties (run [Connected 1 ''abcdef'' 0, Toggle_property 2 4 ''b'' Undefined,
       Remove_region 1 5 2 1] (new_Editor False)) = [(''b'', Flagless [(1, 1)])]
   \<and> builtup_inputs (run [Connected 1 ''abcdef'' 0, Toggle_property 2 4 ''b'' Undefined,
       Remove_region 1 5 2 1] (new_Editor False)) = [Add_property_input 1 1 ''b'' Undefined]"
  by (simp add: handler_defs prim_defs table_defs remove_empty_filter)

text \<open>Adding a range that covers every stored range of the property deletes the property:
  the clearing removes it from the table and the new range goes to the detached object.\<close>

lemma covering_add_drops_property:
  "properties (run [Connected 1 ''abcdef'' 0, Toggle_property 2 4 ''b'' Undefined]
       (new_Editor False)) = [(''b'', Flagless [(2, 4)])]
   \<and> properties (run [Connected 1 ''abcdef'' 0, Toggle_property 2 4 ''b'' Undefined,
       Toggle_property 0 6 ''b'' Undefined] (new_Editor False)) = []"
  by (simp add: handler_defs prim_defs table_defs)

text \<open>Scenario 2 of the specification: with content \<open>abcdef\<close>, the local cursor at 4 and an
  empty queue, a remote \<open>remove_region(1, 3)\<close> gives the content \<open>adef\<close> and the cursor 2.\<close>

lemma concurrent_delete_scenario:
  "content (run [Connected 1 ''abcdef'' 0, Move_cursor 4, Cursor_moved 0 4 1 ''Me'' 1,
       Remove_region 1 3 2 5] (new_Editor False)) = ''adef''
   \<and> get_position (run [Connected 1 ''abcdef'' 0, Move_cursor 4, Cursor_moved 0 4 1 ''Me'' 1,
       Remove_region 1 3 2 5] (new_Editor False)) = Some 2"
  by (simp add: handler_defs prim_defs table_defs remove_empty_filter)

subsection \<open>What \<open>getElementById\<close> returns\<close>

text \<open>Nothing is returned exactly when the id is empty or no element has it, before,
  inside or after the scene.\<close>

lemma getElementById_Absent_iff:
  "getElementById pg i area = Absent \<longleftrightarrow>
     i = [] \<or> (i \<notin> set (ids_before pg) \<and> find_elems i area = None \<and> i \<notin> set (ids_after pg))"
  by (auto simp: getElementById_def split: option.splits)

text \<open>An id of the page is taken: \<open>draw("group", d)\<close> draws nothing.\<close>

lemma draw_with_page_id:
  "on_draw named_page ''group'' path area = area"
  by (simp add: on_draw_def getElementById_def named_page_def)


lemma find_elem_self: "elem_id g = i \<Longrightarrow> find_elem i g = Some g"
  by (cases g) simp

lemma find_elem_None_id: "find_elem i e = None \<Longrightarrow> elem_id e \<noteq> i"
  by (cases e) (auto split: if_splits)

lemma find_elems_split:
  "\<forall>e\<in>set pre. find_elem i e = None \<Longrightarrow> elem_id g = i \<Longrightarrow>
   find_elems i (pre @ g # post) = Some g"
  by (induction pre) (auto simp: find_elem_self)

lemma modify_elem_self: "elem_id g = i \<Longrightarrow> modify_elem i f g = f g"
  by (cases g) simp

lemma modify_elems_split:
  "\<forall>e\<in>set pre. find_elem i e = None \<Longrightarrow> elem_id g = i \<Longrightarrow>
   modify_elems i f (pre @ g # post) = pre @ f g @ post"
  by (induction pre) (auto simp: find_elem_self modify_elem_self)

lemma child_index_split:
  "child_index i area = Some k \<Longrightarrow>
   \<exists>pre g post. area = pre @ g # post \<and> length pre = k \<and> elem_id g = i
      \<and> (\<forall>e\<in>set pre. find_elem i e = None)"
proof (induction area arbitrary: k)
  case Nil
  then show ?case by simp
next
  case (Cons e es)
  show ?case
  proof (cases "elem_id e = i")
    case True
    then have "k = 0" using Cons.prems by simp
    then show ?thesis using True by (intro exI[of _ "[]"] exI[of _ e] exI[of _ es]) simp
  next
    case False
    then have n: "find_elem i e = None" and "\<exists>k'. child_index i es = Some k' \<and> k = Suc k'"
      using Cons.prems by (auto split: if_splits)
    then obtain k' where k': "child_index i es = Some k'" "k = Suc k'" by blast
    from Cons.IH[OF k'(1)] obtain pre g post where
      "es = pre @ g # post" "length pre = k'" "elem_id g = i" "\<forall>e\<in>set pre. find_elem i e = None"
      by blast
    then show ?thesis using n k'
      by (intro exI[of _ "e # pre"] exI[of _ g] exI[of _ post]) simp
  qed
qed

lemma child_index_at:
  "\<forall>e\<in>set pre. find_elem i e = None \<Longrightarrow> elem_id g = i \<Longrightarrow>
   child_index i (pre @ g # post) = Some (length pre)"
  by (induction pre) (auto dest: find_elem_None_id)

lemma ungroup_loop_split:
  "\<forall>e\<in>set pre. find_elem i e = None \<Longrightarrow>
   ungroup_loop i cs (pre @ Element t i d cs # post) = pre @ Element t i d [] # post @ cs"
proof (induction cs arbitrary: post)
  case Nil
  then show ?case by simp
next
  case (Cons c rest)
  have "modify_elems i (\<lambda>g. [Element (tagName g) (elem_id g) (attr_d g) rest])
          (pre @ Element t i d (c # rest) # post) = pre @ [Element t i d rest] @ post"
    using Cons.prems by (subst modify_elems_split) simp_all
  then show ?case using Cons.IH[OF Cons.prems, of "post @ [c]"] by simp
qed

lemma nested_scene_eval:
  "nested_scene =
     [Element Tag_g ''g1'' None
        [Element Tag_g ''g2'' None
           [Element Tag_path ''p'' (Some ''M 0 0'') [], Element Tag_path ''q'' (Some ''M 1 1'') []],
         Element Tag_path ''r'' (Some ''M 2 2'') []]]"
  by (simp add: nested_scene_def named_page_def group_elements_def on_draw_def getElementById_def
        state_of_def)

subsection \<open>Rounding\<close>

lemma real_of_int_le: "a \<le> b \<Longrightarrow> real_of_int a \<le> real_of_int b"
  by simp

lemma floor_log2_bounds:
  assumes "0 < x"
  shows "2 powi floor_log2 x \<le> x \<and> x < 2 powi (floor_log2 x + 1)"
proof (cases "1 \<le> x")
  case True
  define n where "n = \<lfloor>x\<rfloor>"
  have n: "1 \<le> n" "of_int n \<le> x" "x < of_int n + 1"
    using True by (auto simp: n_def le_floor_iff)
  have b: "1 \<le> bitlen n" using n(1) by (simp add: bitlen_alt_def)
  have bb: "2 ^ nat (bitlen n - 1) \<le> n" "n < 2 ^ nat (bitlen n)"
    using bitlen_bounds [of n] n(1) by auto
  have e: "floor_log2 x = bitlen n - 1" using True by (simp add: floor_log2_def n_def)
  have "(2::real) powi (bitlen n - 1) = 2 ^ nat (bitlen n - 1)"
    using b by (simp add: power_int_def)
  also have "\<dots> \<le> of_int n" using bb(1) by simp
  finally have l: "2 powi (bitlen n - 1) \<le> x" using n(2) by linarith
  have "n + 1 \<le> 2 ^ nat (bitlen n)" using bb(2) by linarith
  hence "real_of_int n + 1 \<le> 2 ^ nat (bitlen n)"
    using real_of_int_le [of "n + 1" "2 ^ nat (bitlen n)"] by simp
  hence "x < 2 ^ nat (bitlen n)" using n(3) by linarith
  moreover have "(2::real) powi (bitlen n - 1 + 1) = 2 ^ nat (bitlen n)"
    using b by (simp add: power_int_def)
  ultimately show ?thesis using l e by simp
next
  case False
  define m where "m = \<lceil>1 / x\<rceil>"
  have y: "1 < 1 / x" using False assms by simp
  have m: "1 / x \<le> of_int m" "of_int m - 1 < 1 / x" "2 \<le> m"
    using y by (auto simp: m_def less_ceiling_iff) linarith+
  define b where "b = bitlen (m - 1)"
  have b: "1 \<le> b" using m(3) by (simp add: b_def bitlen_alt_def)
  have bb: "2 ^ nat (b - 1) \<le> m - 1" "m - 1 < 2 ^ nat b"
    using bitlen_bounds [of "m - 1"] m(3) by (auto simp: b_def)
  have e: "floor_log2 x = - b" using False by (simp add: floor_log2_def m_def b_def)
  have "m \<le> 2 ^ nat b" using bb(2) by linarith
  hence "real_of_int m \<le> 2 ^ nat b" by simp
  hence u: "1 / x \<le> 2 ^ nat b" using m(1) by linarith
  have "2 ^ nat (b - 1) \<le> real_of_int m - 1"
    using real_of_int_le [OF bb(1)] by simp
  hence v: "2 ^ nat (b - 1) < 1 / x" using m(2) by linarith
  have p1: "(2::real) powi (- b) = 1 / 2 ^ nat b"
    using b by (simp add: power_int_def field_simps)
  have p2: "(2::real) powi (- b + 1) = 1 / 2 ^ nat (b - 1)"
    using b by (cases "b = 1") (simp_all add: power_int_def field_simps)
  have "1 / 2 ^ nat b \<le> x" using u assms by (simp add: field_simps)
  moreover have "x < 1 / 2 ^ nat (b - 1)" using v assms by (simp add: field_simps)
  ultimately show ?thesis using e p1 p2 by simp
qed

text \<open>The rounded integer is a nearest one.\<close>

lemma round_ties_even_nearest: "\<bar>of_int (round_ties_even r) - r\<bar> \<le> 1 / 2"
  unfolding round_ties_even_def Let_def by (simp add: abs_if) linarith

text \<open>Integers below \<open>2^53\<close> in magnitude are doubles; in the normal range the rounding error is
  at most \<open>2^-53\<close> of the value; and the rounded quotient of two integers up to \<open>2^51\<close>
  compares with 0 and 1 as the exact quotient does.\<close>

lemma round_ties_even_of_int: "round_ties_even (of_int k) = k"
  by (simp add: round_ties_even_def)

lemma round_double_of_int:
  assumes "\<bar>n\<bar> < 2 ^ 53"
  shows "round_double (of_int n) = Finite (of_int n)"
proof (cases "n = 0")
  case True
  then show ?thesis by (simp add: round_double_def)
next
  case False
  define m where "m = \<bar>n\<bar>"
  have m: "1 \<le> m" "m < 2 ^ 53" using False assms by (auto simp: m_def)
  define e where "e = bitlen m - 1"
  have "bitlen m \<le> 53" using m(2) by (simp add: bitlen_le_iff_power)
  moreover have "1 \<le> bitlen m" using m(1) by (simp add: bitlen_alt_def)
  ultimately have e: "0 \<le> e" "e \<le> 52" by (auto simp: e_def)
  have fl: "floor_log2 \<bar>real_of_int n\<bar> = e"
    using m(1) by (simp add: floor_log2_def m_def e_def flip: of_int_abs)
  have u: "ulp (of_int n) = 1 / 2 ^ nat (52 - e)"
    using e by (simp add: ulp_def fl power_int_def field_simps)
  have q: "real_of_int n / ulp (of_int n) = of_int (n * 2 ^ nat (52 - e))"
    by (simp add: u)
  have y: "of_int (round_ties_even (real_of_int n / ulp (of_int n))) * ulp (of_int n) = of_int n"
    unfolding q round_ties_even_of_int by (simp add: u)
  have "\<bar>real_of_int n\<bar> < 2 ^ 53"
    using assms real_of_int_le [of "\<bar>n\<bar> + 1" "2 ^ 53"] by simp
  also have "\<dots> < (2::real) powi 1024" by (simp add: power_int_def)
  finally show ?thesis using False by (simp add: round_double_def y Let_def)
qed

lemma round_double_relative:
  assumes lo: "2 powi (- 1022) \<le> \<bar>x\<bar>" and hi: "\<bar>x\<bar> \<le> 2 ^ 53"
  shows "\<exists>y. round_double x = Finite y \<and> \<bar>y - x\<bar> \<le> \<bar>x\<bar> / 2 ^ 53"
proof -
  have pos: "0 < \<bar>x\<bar>" using lo zero_less_power_int [of "2::real" "- 1022"] by linarith
  define e where "e = floor_log2 \<bar>x\<bar>"
  have b: "2 powi e \<le> \<bar>x\<bar>" "\<bar>x\<bar> < 2 powi (e + 1)"
    using floor_log2_bounds [OF pos] by (auto simp: e_def)
  have e: "- 1022 \<le> e"
  proof (rule ccontr)
    assume "\<not> - 1022 \<le> e"
    then have "e + 1 \<le> - 1022" by simp
    then have "(2::real) powi (e + 1) \<le> 2 powi (- 1022)"
      by (intro power_int_increasing) auto
    then show False using b(2) lo by linarith
  qed
  define u where "u = ulp x"
  have u: "u = 2 powi e / 2 ^ 52"
    using e by (simp add: u_def ulp_def e_def power_int_diff)
  have upos: "0 < u" unfolding u by simp
  define k where "k = round_ties_even (x / u)"
  have "\<bar>of_int k - x / u\<bar> \<le> 1 / 2" unfolding k_def by (rule round_ties_even_nearest)
  then have "\<bar>of_int k - x / u\<bar> * u \<le> 1 / 2 * u"
    using upos by (intro mult_right_mono) auto
  moreover have "\<bar>of_int k - x / u\<bar> * u = \<bar>(of_int k - x / u) * u\<bar>"
    using upos by (simp add: abs_mult)
  moreover have "(of_int k - x / u) * u = of_int k * u - x"
    using upos by (simp add: left_diff_distrib)
  ultimately have d: "\<bar>of_int k * u - x\<bar> \<le> u / 2" by simp
  have "u / 2 = 2 powi e / 2 ^ 53" unfolding u by simp
  also have "\<dots> \<le> \<bar>x\<bar> / 2 ^ 53" using b(1) by (simp add: divide_right_mono)
  finally have r: "\<bar>of_int k * u - x\<bar> \<le> \<bar>x\<bar> / 2 ^ 53" using d by linarith
  have "\<bar>of_int k * u\<bar> \<le> \<bar>x\<bar> + \<bar>x\<bar> / 2 ^ 53" using r by linarith
  also have "\<dots> \<le> 2 ^ 53 + 2 ^ 53 / 2 ^ 53" using hi by (intro add_mono divide_right_mono) auto
  also have "\<dots> < (2::real) powi 1024" by (simp add: power_int_def)
  finally have nov: "\<not> 2 powi 1024 \<le> \<bar>of_int k * u\<bar>" by simp
  have "round_double x = Finite (of_int k * u)"
    using pos nov by (simp add: round_double_def Let_def k_def u_def)
  then show ?thesis using r by blast
qed


lemma quotient_round:
  fixes N D :: int
  assumes D: "D \<noteq> 0" and N: "\<bar>N\<bar> \<le> 2 ^ 51" and D': "\<bar>D\<bar> \<le> 2 ^ 51"
  shows "\<exists>y. round_double (of_int N / of_int D) = Finite y
     \<and> (0 \<le> y \<longleftrightarrow> 0 \<le> real_of_int N / of_int D)
     \<and> (y \<le> 1 \<longleftrightarrow> real_of_int N / of_int D \<le> 1)"
proof -
  define q where "q = real_of_int N / of_int D"
  have d: "1 \<le> \<bar>real_of_int D\<bar>" "\<bar>real_of_int D\<bar> \<le> 2 ^ 51"
    using D real_of_int_le [OF D'] real_of_int_le [of 1 "\<bar>D\<bar>"] by auto
  have n: "\<bar>real_of_int N\<bar> \<le> 2 ^ 51" using real_of_int_le [OF N] by simp
  consider "N = 0" | "N = D" | "N \<noteq> 0" "N \<noteq> D" by blast
  then show ?thesis
  proof cases
    case 1
    then show ?thesis by (simp add: round_double_def)
  next
    case 2
    then show ?thesis using D round_double_of_int [of 1] by simp
  next
    case 3
    have n1: "1 \<le> \<bar>real_of_int N\<bar>" using 3(1) real_of_int_le [of 1 "\<bar>N\<bar>"] by simp
    have nd: "1 \<le> \<bar>real_of_int N - real_of_int D\<bar>"
      using 3(2) real_of_int_le [of 1 "\<bar>N - D\<bar>"] by simp
    have aq: "\<bar>q\<bar> = \<bar>real_of_int N\<bar> / \<bar>real_of_int D\<bar>" by (simp add: q_def)
    have lo: "1 / 2 ^ 51 \<le> \<bar>q\<bar>"
      unfolding aq using n1 d by (intro frac_le) auto
    have "\<bar>q\<bar> \<le> \<bar>real_of_int N\<bar> / 1"
      unfolding aq using d by (intro divide_left_mono) auto
    then have hi: "\<bar>q\<bar> \<le> 2 ^ 51" using n by simp
    have q1: "\<bar>q - 1\<bar> = \<bar>real_of_int N - real_of_int D\<bar> / \<bar>real_of_int D\<bar>"
      using D by (simp add: q_def field_simps flip: abs_divide)
    have g: "1 / 2 ^ 51 \<le> \<bar>q - 1\<bar>"
      unfolding q1 using nd d by (intro frac_le) auto
    have "(2::real) powi (- 1022) \<le> 1 / 2 ^ 51" by (simp add: power_int_def field_simps)
    then have "2 powi (- 1022) \<le> \<bar>q\<bar>" using lo by linarith
    moreover have "\<bar>q\<bar> \<le> 2 ^ 53" using hi by simp
    ultimately obtain y where y: "round_double q = Finite y" "\<bar>y - q\<bar> \<le> \<bar>q\<bar> / 2 ^ 53"
      using round_double_relative by blast
    have "0 \<le> y \<longleftrightarrow> 0 \<le> q" using y(2) lo by (auto simp: abs_if split: if_splits)
    moreover have "y \<le> 1 \<longleftrightarrow> q \<le> 1" using y(2) lo g hi
      by (auto simp: abs_if split: if_splits)
    ultimately show ?thesis using y(1) unfolding q_def by blast
  qed
qed

lemma dsub_int:
  "\<bar>i - j\<bar> < 2 ^ 53 \<Longrightarrow>
   dsub (Finite (of_int i)) (Finite (of_int j)) = Finite (of_int i - of_int j)"
  using round_double_of_int [of "i - j"] by simp

lemma dmul_int:
  "\<bar>i * j\<bar> < 2 ^ 53 \<Longrightarrow>
   dmul (Finite (of_int i)) (Finite (of_int j)) = Finite (of_int i * of_int j)"
  using round_double_of_int [of "i * j"] by simp

text \<open>Evaluation on numerals.\<close>

lemma bitlen_numeral: "bitlen (numeral k) = bitlen (numeral k div 2) + 1"
  by (subst compute_bitlen) simp

lemma bitlen_one: "bitlen 1 = 1"
  by (subst compute_bitlen) simp

lemmas double_eval = linesIntersect_def round_double_def ulp_def floor_log2_def round_ties_even_def
  Let_def deq_def dge_def infinity_def power_int_def power_divide bitlen_numeral bitlen_one

text \<open>Some results as JavaScript prints them: \<open>0.3 - 0.1\<close> is \<open>0.19999999999999998\<close>, \<open>0.1 * 3\<close> is
  \<open>0.30000000000000004\<close>, \<open>1 / 3\<close> is \<open>0.3333333333333333\<close>, \<open>2^53 + 1\<close> is \<open>2^53\<close> and
  \<open>(2^53 + 2) + 1\<close> is \<open>2^53 + 4\<close>.\<close>

lemma double_arithmetic_examples:
  "round_double (1 / 10) = Finite (3602879701896397 / 2 ^ 55)
   \<and> round_double (3 / 10) = Finite (5404319552844595 / 2 ^ 54)
   \<and> dsub (Finite (5404319552844595 / 2 ^ 54)) (Finite (3602879701896397 / 2 ^ 55))
       = Finite (7205759403792793 / 2 ^ 55)
   \<and> dmul (Finite (3602879701896397 / 2 ^ 55)) (Finite 3) = Finite (1351079888211149 / 2 ^ 52)
   \<and> ddiv (Finite 1) (Finite 3) = Some (Finite (6004799503160661 / 2 ^ 54))
   \<and> dsub (Finite (2 ^ 53)) (Finite (- 1)) = Finite (2 ^ 53)
   \<and> dsub (Finite (2 ^ 53 + 2)) (Finite (- 1)) = Finite (2 ^ 53 + 4)"
  by (simp add: double_eval)

subsection \<open>Negation under rounding and the operators on numbers\<close>

lemma round_ties_even_minus: "round_ties_even (- r) = - round_ties_even r"
proof (cases "r = of_int \<lfloor>r\<rfloor>")
  case True
  then obtain k :: int where r: "r = of_int k" by blast
  show ?thesis unfolding r round_ties_even_def Let_def
    by (simp flip: of_int_minus)
next
  case False
  hence lt: "of_int \<lfloor>r\<rfloor> < r" using of_int_floor_le [of r] by linarith
  have fl: "\<lfloor>- r\<rfloor> = - \<lfloor>r\<rfloor> - 1"
  proof (rule floor_unique)
    show "of_int (- \<lfloor>r\<rfloor> - 1) \<le> - r" by simp linarith
    show "- r < of_int (- \<lfloor>r\<rfloor> - 1) + 1" using lt by simp
  qed
  show ?thesis unfolding round_ties_even_def Let_def fl
    using lt by (auto simp: field_simps)
qed

lemma ulp_minus: "ulp (- x) = ulp x"
  by (simp add: ulp_def)

lemma round_double_minus: "round_double (- x) = dneg (round_double x)"
  by (simp add: round_double_def Let_def ulp_minus round_ties_even_minus)

lemma dsub_swap: "dsub a b = dneg (dsub b a)"
  using round_double_minus [of "(case b of Finite y \<Rightarrow> y) - (case a of Finite x \<Rightarrow> x)"]
  by (cases a; cases b) simp_all

lemma dmul_commute: "dmul a b = dmul b a"
  by (cases a; cases b) (simp_all add: mult.commute)

lemma dmul_dneg: "dmul a (dneg b) = dneg (dmul a b)"
  using round_double_minus [of "(case a of Finite x \<Rightarrow> x) * (case b of Finite y \<Rightarrow> y)"]
  by (cases a; cases b) (auto simp: infinity_def)

lemma dsub_dneg: "dsub (dneg a) (dneg b) = dneg (dsub a b)"
  using round_double_minus [of "(case a of Finite x \<Rightarrow> x) - (case b of Finite y \<Rightarrow> y)"]
  by (cases a; cases b) (simp_all add: algebra_simps)

lemma ddiv_dneg: "ddiv (dneg a) (dneg b) = ddiv a b"
  by (cases a; cases b) (auto simp: infinity_def)

lemma deq_dneg_zero: "deq (dneg a) (Finite 0) = deq a (Finite 0)"
  by (cases a) (simp_all add: deq_def)

text \<open>\<open>linesIntersect\<close> never divides by a zero.\<close>

lemma ddiv_defined: "\<not> deq d (Finite 0) \<Longrightarrow> ddiv x d \<noteq> None"
  by (cases x; cases d) (simp_all add: deq_def)

subsection \<open>\<open>linesIntersect\<close> under exchange, and on integer coordinates\<close>

lemma linesIntersect_exchanged:
  "linesIntersect a1 a2 b1 b2 = linesIntersect b1 b2 a1 a2"
proof -
  define P where "P = dmul (dsub (snd b2) (snd b1)) (dsub (fst a2) (fst a1))"
  define Q where "Q = dmul (dsub (fst b2) (fst b1)) (dsub (snd a2) (snd a1))"
  define A where "A = dmul (dsub (fst a2) (fst a1)) (dsub (snd a1) (snd b1))"
  define B where "B = dmul (dsub (snd a2) (snd a1)) (dsub (fst a1) (fst b1))"
  define C where "C = dmul (dsub (fst b2) (fst b1)) (dsub (snd a1) (snd b1))"
  define E where "E = dmul (dsub (snd b2) (snd b1)) (dsub (fst a1) (fst b1))"
  have P': "dmul (dsub (snd a2) (snd a1)) (dsub (fst b2) (fst b1)) = Q"
    and Q': "dmul (dsub (fst a2) (fst a1)) (dsub (snd b2) (snd b1)) = P"
    unfolding P_def Q_def by (rule dmul_commute)+
  have A': "dmul (dsub (fst a2) (fst a1)) (dsub (snd b1) (snd a1)) = dneg A"
    unfolding A_def by (subst dsub_swap [of "snd b1"]) (rule dmul_dneg)
  have B': "dmul (dsub (snd a2) (snd a1)) (dsub (fst b1) (fst a1)) = dneg B"
    unfolding B_def by (subst dsub_swap [of "fst b1"]) (rule dmul_dneg)
  have C': "dmul (dsub (fst b2) (fst b1)) (dsub (snd b1) (snd a1)) = dneg C"
    unfolding C_def by (subst dsub_swap [of "snd b1"]) (rule dmul_dneg)
  have E': "dmul (dsub (snd b2) (snd b1)) (dsub (fst b1) (fst a1)) = dneg E"
    unfolding E_def by (subst dsub_swap [of "fst b1"]) (rule dmul_dneg)
  have lhs: "linesIntersect a1 a2 b1 b2 =
      (if deq (dsub P Q) (Finite 0) then False
       else (case (ddiv (dsub C E) (dsub P Q), ddiv (dsub A B) (dsub P Q)) of
               (Some ua, Some ub) \<Rightarrow>
                 dge ua (Finite 0) \<and> dle ua (Finite 1) \<and> dge ub (Finite 0) \<and> dle ub (Finite 1)
             | _ \<Rightarrow> False))"
    unfolding linesIntersect_def Let_def P_def Q_def A_def B_def C_def E_def ..
  have D: "dsub Q P = dneg (dsub P Q)" by (rule dsub_swap)
  have rhs: "linesIntersect b1 b2 a1 a2 =
      (if deq (dsub P Q) (Finite 0) then False
       else (case (ddiv (dsub A B) (dsub P Q), ddiv (dsub C E) (dsub P Q)) of
               (Some ua, Some ub) \<Rightarrow>
                 dge ua (Finite 0) \<and> dle ua (Finite 1) \<and> dge ub (Finite 0) \<and> dle ub (Finite 1)
             | _ \<Rightarrow> False))"
    unfolding linesIntersect_def Let_def P' Q' A' B' C' E' D dsub_dneg ddiv_dneg deq_dneg_zero ..
  show ?thesis unfolding lhs rhs
    by (auto split: option.splits)
qed

text \<open>With integer coordinates up to \<open>2^24\<close> in magnitude every difference and product is
  exact, and \<open>linesIntersect\<close> is the formula in exact arithmetic.\<close>

lemma abs_mult_le:
  fixes a b :: int
  shows "\<bar>a\<bar> \<le> A \<Longrightarrow> \<bar>b\<bar> \<le> B \<Longrightarrow> \<bar>a * b\<bar> \<le> A * B"
  unfolding abs_mult by (intro mult_mono) auto

lemma cross_int:
  fixes a b c d :: int
  assumes "\<bar>a\<bar> \<le> 2 ^ 25" "\<bar>b\<bar> \<le> 2 ^ 25" "\<bar>c\<bar> \<le> 2 ^ 25" "\<bar>d\<bar> \<le> 2 ^ 25"
  shows "dsub (dmul (Finite (of_int a)) (Finite (of_int b))) (dmul (Finite (of_int c)) (Finite (of_int d)))
      = Finite (of_int (a * b - c * d))"
    and "\<bar>a * b - c * d\<bar> \<le> 2 ^ 51"
proof -
  have p: "\<bar>a * b\<bar> \<le> 2 ^ 50" "\<bar>c * d\<bar> \<le> 2 ^ 50"
    using abs_mult_le [OF assms(1,2)] abs_mult_le [OF assms(3,4)] by simp_all
  then show r: "\<bar>a * b - c * d\<bar> \<le> 2 ^ 51"
    using abs_triangle_ineq4 [of "a * b" "c * d"] by simp
  have "dmul (Finite (of_int a)) (Finite (of_int b)) = Finite (of_int (a * b))"
    "dmul (Finite (of_int c)) (Finite (of_int d)) = Finite (of_int (c * d))"
    using p dmul_int [of a b] dmul_int [of c d] by simp_all
  moreover have "dsub (Finite (of_int (a * b))) (Finite (of_int (c * d))) = Finite (of_int (a * b - c * d))"
    using r dsub_int [of "a * b" "c * d"] by simp
  ultimately show "dsub (dmul (Finite (of_int a)) (Finite (of_int b)))
        (dmul (Finite (of_int c)) (Finite (of_int d))) = Finite (of_int (a * b - c * d))"
    by (simp only:)
qed


lemma diff_int:
  fixes i j :: int
  assumes "\<bar>i\<bar> \<le> 2 ^ 24" "\<bar>j\<bar> \<le> 2 ^ 24"
  shows "dsub (Finite (of_int i)) (Finite (of_int j)) = Finite (of_int (i - j))"
    and "\<bar>i - j\<bar> \<le> 2 ^ 25"
proof -
  show r: "\<bar>i - j\<bar> \<le> 2 ^ 25" using assms by simp
  then show "dsub (Finite (of_int i)) (Finite (of_int j)) = Finite (of_int (i - j))"
    using dsub_int [of i j] by simp
qed

lemma linesIntersect_int_points:
  fixes a1x a1y a2x a2y b1x b1y b2x b2y :: int
  assumes "\<forall>c\<in>set [a1x, a1y, a2x, a2y, b1x, b1y, b2x, b2y]. \<bar>c\<bar> \<le> 2 ^ 24"
  shows "linesIntersect (int_point a1x a1y) (int_point a2x a2y) (int_point b1x b1y) (int_point b2x b2y)
     = (let D = (b2y - b1y) * (a2x - a1x) - (b2x - b1x) * (a2y - a1y);
            Na = (b2x - b1x) * (a1y - b1y) - (b2y - b1y) * (a1x - b1x);
            Nb = (a2x - a1x) * (a1y - b1y) - (a2y - a1y) * (a1x - b1x)
        in D \<noteq> 0 \<and> 0 \<le> real_of_int Na / of_int D \<and> real_of_int Na / of_int D \<le> 1
           \<and> 0 \<le> real_of_int Nb / of_int D \<and> real_of_int Nb / of_int D \<le> 1)"
proof -
  have c: "\<bar>a1x\<bar> \<le> 2 ^ 24" "\<bar>a1y\<bar> \<le> 2 ^ 24" "\<bar>a2x\<bar> \<le> 2 ^ 24" "\<bar>a2y\<bar> \<le> 2 ^ 24"
    "\<bar>b1x\<bar> \<le> 2 ^ 24" "\<bar>b1y\<bar> \<le> 2 ^ 24" "\<bar>b2x\<bar> \<le> 2 ^ 24" "\<bar>b2y\<bar> \<le> 2 ^ 24"
    using assms by simp_all
  define D where "D = (b2y - b1y) * (a2x - a1x) - (b2x - b1x) * (a2y - a1y)"
  define Na where "Na = (b2x - b1x) * (a1y - b1y) - (b2y - b1y) * (a1x - b1x)"
  define Nb where "Nb = (a2x - a1x) * (a1y - b1y) - (a2y - a1y) * (a1x - b1x)"
  note d = diff_int [OF c(8) c(6)] diff_int [OF c(3) c(1)] diff_int [OF c(7) c(5)]
    diff_int [OF c(4) c(2)] diff_int [OF c(2) c(6)] diff_int [OF c(1) c(5)]
  have D: "dsub (dmul (dsub (Finite (of_int b2y)) (Finite (of_int b1y)))
                      (dsub (Finite (of_int a2x)) (Finite (of_int a1x))))
                (dmul (dsub (Finite (of_int b2x)) (Finite (of_int b1x)))
                      (dsub (Finite (of_int a2y)) (Finite (of_int a1y)))) = Finite (of_int D)"
    and D': "\<bar>D\<bar> \<le> 2 ^ 51"
    unfolding D_def d(1,3,5,7) by (rule cross_int; rule d)+
  have Na: "dsub (dmul (dsub (Finite (of_int b2x)) (Finite (of_int b1x)))
                       (dsub (Finite (of_int a1y)) (Finite (of_int b1y))))
                 (dmul (dsub (Finite (of_int b2y)) (Finite (of_int b1y)))
                       (dsub (Finite (of_int a1x)) (Finite (of_int b1x)))) = Finite (of_int Na)"
    and Na': "\<bar>Na\<bar> \<le> 2 ^ 51"
    unfolding Na_def d(1,5,9,11) by (rule cross_int; rule d)+
  have Nb: "dsub (dmul (dsub (Finite (of_int a2x)) (Finite (of_int a1x)))
                       (dsub (Finite (of_int a1y)) (Finite (of_int b1y))))
                 (dmul (dsub (Finite (of_int a2y)) (Finite (of_int a1y)))
                       (dsub (Finite (of_int a1x)) (Finite (of_int b1x)))) = Finite (of_int Nb)"
    and Nb': "\<bar>Nb\<bar> \<le> 2 ^ 51"
    unfolding Nb_def d(3,7,9,11) by (rule cross_int; rule d)+
  have l: "linesIntersect (int_point a1x a1y) (int_point a2x a2y) (int_point b1x b1y) (int_point b2x b2y)
     = (if deq (Finite (of_int D)) (Finite 0) then False
        else (case (ddiv (Finite (of_int Na)) (Finite (of_int D)),
                    ddiv (Finite (of_int Nb)) (Finite (of_int D))) of
                (Some ua, Some ub) \<Rightarrow>
                  dge ua (Finite 0) \<and> dle ua (Finite 1) \<and> dge ub (Finite 0) \<and> dle ub (Finite 1)
              | _ \<Rightarrow> False))"
    unfolding linesIntersect_def int_point_def Let_def fst_conv snd_conv D Na Nb ..
  show ?thesis
  proof (cases "D = 0")
    case True
    then show ?thesis unfolding l D_def[symmetric] Na_def[symmetric] Nb_def[symmetric]
      by (simp add: deq_def)
  next
    case False
    obtain ua where ua: "round_double (of_int Na / of_int D) = Finite ua"
      "0 \<le> ua \<longleftrightarrow> 0 \<le> real_of_int Na / of_int D" "ua \<le> 1 \<longleftrightarrow> real_of_int Na / of_int D \<le> 1"
      using quotient_round [OF False Na' D'] by blast
    obtain ub where ub: "round_double (of_int Nb / of_int D) = Finite ub"
      "0 \<le> ub \<longleftrightarrow> 0 \<le> real_of_int Nb / of_int D" "ub \<le> 1 \<longleftrightarrow> real_of_int Nb / of_int D \<le> 1"
      using quotient_round [OF False Nb' D'] by blast
    show ?thesis unfolding l D_def[symmetric] Na_def[symmetric] Nb_def[symmetric]
      using False ua ub by (simp add: deq_def dge_def)
  qed
qed

lemma linesIntersect_int_points_reversed:
  fixes a1x a1y a2x a2y b1x b1y b2x b2y :: int
  assumes "\<forall>c\<in>set [a1x, a1y, a2x, a2y, b1x, b1y, b2x, b2y]. \<bar>c\<bar> \<le> 2 ^ 24"
  shows "linesIntersect (int_point a1x a1y) (int_point a2x a2y) (int_point b1x b1y) (int_point b2x b2y)
     = linesIntersect (int_point a2x a2y) (int_point a1x a1y) (int_point b2x b2y) (int_point b1x b1y)"
proof -
  define D where "D = (b2y - b1y) * (a2x - a1x) - (b2x - b1x) * (a2y - a1y)"
  define Na where "Na = (b2x - b1x) * (a1y - b1y) - (b2y - b1y) * (a1x - b1x)"
  define Nb where "Nb = (a2x - a1x) * (a1y - b1y) - (a2y - a1y) * (a1x - b1x)"
  have r: "\<forall>c\<in>set [a2x, a2y, a1x, a1y, b2x, b2y, b1x, b1y]. \<bar>c\<bar> \<le> 2 ^ 24"
    using assms by simp
  have d2: "(b1y - b2y) * (a1x - a2x) - (b1x - b2x) * (a1y - a2y) = D"
    by (simp add: D_def algebra_simps)
  have m1: "(b1x - b2x) * (a2y - b2y) - (b1y - b2y) * (a2x - b2x) = D - Na"
    by (simp add: D_def Na_def algebra_simps)
  have m2: "(a1x - a2x) * (a2y - b2y) - (a1y - a2y) * (a2x - b2x) = D - Nb"
    by (simp add: D_def Nb_def algebra_simps)
  have q: "D \<noteq> 0 \<Longrightarrow> real_of_int (D - x) / of_int D = 1 - of_int x / of_int D" for x
    by (simp add: diff_divide_distrib)
  show ?thesis
    unfolding linesIntersect_int_points [OF assms] linesIntersect_int_points [OF r] Let_def
      d2 m1 m2 D_def[symmetric] Na_def[symmetric] Nb_def[symmetric]
    using q by auto
qed


section \<open>The claims\<close>

text \<open>
  C1. Claimed: in every reachable state with an empty queue the live replica equals the
  shadow replica. The engine breaks this on a run in which every echo matches: user 1
  inserts \<open>X\<close> at 1, the cursor of user 2 arrives at 2 while the insert is pending, then the
  insert is echoed. The queue is empty, the live cursor of user 2 is at 3 and its shadow
  cursor at 4.
\<close>

theorem live_shadow_diverge_after_drain:
  "builtup_inputs (run [Connected 1 ''abc'' 0, Add ''X'' 1, Cursor_moved 0 2 2 ''bob'' 1,
       Add_region ''X'' 1 1 2] (new_Editor False)) = []
   \<and> map_option position (map_of (cursors (run [Connected 1 ''abc'' 0, Add ''X'' 1,
       Cursor_moved 0 2 2 ''bob'' 1, Add_region ''X'' 1 1 2] (new_Editor False))) 2) = Some 3
   \<and> map_option position (map_of (server_cursors (run [Connected 1 ''abc'' 0, Add ''X'' 1,
       Cursor_moved 0 2 2 ''bob'' 1, Add_region ''X'' 1 1 2] (new_Editor False))) 2) = Some 4"
  by (simp add: handler_defs prim_defs table_defs)

text \<open>
  C2. Claimed: a remote \<open>cursor_moved(position, userid)\<close> sets the shadow cursor of \<open>userid\<close>
  to the position the server sent, whatever the queue holds. With the insert of \<open>X\<close> at 1
  pending, the remote position 2 is stored in the shadow table as 3: the handler copies
  the rebased live cursor into \<open>#server_cursors\<close>.
\<close>

theorem remote_cursor_shadow_is_rebased:
  "builtup_inputs (run [Connected 1 ''abc'' 0, Add ''X'' 1] (new_Editor False)) = [Add_input 1 ''X'']
   \<and> map_option position (map_of (server_cursors (state_of (on_cursor_moved 0 2 2 ''bob'' 1
        (run [Connected 1 ''abc'' 0, Add ''X'' 1] (new_Editor False))))) 2) = Some 3"
  by (simp add: handler_defs prim_defs table_defs)

text \<open>
  C3. The rebase scenario: on a connected engine with content \<open>abc\<close>, both cursors of the
  local user at 3 and an empty queue, \<open>add("X", 1)\<close> gives the live text \<open>aXbc\<close> and the queue
  \<open>[add("X", 1)]\<close>; the event \<open>add_region("YY", 0, other, 17)\<close> of another user then gives the
  shadow text \<open>YYabc\<close>, the live text \<open>YYaXbc\<close>, the queue \<open>[add("X", 3)]\<close> and the local cursor
  at 6.
\<close>

theorem concurrent_insert_scenario:
  assumes "\<not> read_only s" "userid s = Some u" "other \<noteq> u"
    "content s = ''abc''" "server_content s = ''abc''" "builtup_inputs s = []"
    "map_of (cursors s) u = Some c" "position c = 3"
    "map_of (server_cursors s) u = Some c'" "position c' = 3"
  shows "\<exists>s1 s2. add ''X'' 1 s = Returned s1
      \<and> content s1 = ''aXbc'' \<and> builtup_inputs s1 = [Add_input 1 ''X'']
      \<and> on_add_region ''YY'' 0 other 17 s1 = Returned s2
      \<and> server_content s2 = ''YYabc'' \<and> content s2 = ''YYaXbc''
      \<and> builtup_inputs s2 = [Add_input 3 ''X''] \<and> get_position s2 = Some 6"
proof -
  define s1 where "s1 = actual_add ''X'' 1 False
     ((emit (Emit_add_region ''X'' 1 (last_mod_id s)) (push_input (Add_input 1 ''X'') s))
        \<lparr>last_mod_id_dirty := False\<rparr>)"
  have a: "add ''X'' 1 s = Returned s1"
    using assms by (simp add: add_def s1_def prim_defs map_of_shift_cursors)
  have b: "content s1 = ''aXbc''" "builtup_inputs s1 = [Add_input 1 ''X'']"
    "userid s1 = Some u" "server_content s1 = ''abc''" "\<not> read_only s1"
    "server_cursors s1 = server_cursors s"
    using assms by (simp_all add: s1_def prim_defs)
  define s2 where "s2 = state_of (on_add_region ''YY'' 0 other 17 s1)"
  have c: "on_add_region ''YY'' 0 other 17 s1 = Returned s2"
    using assms b by (simp add: s2_def on_add_region_def state_of_def prim_defs)
  have d: "server_content s2 = ''YYabc''" "content s2 = ''YYaXbc''"
      "builtup_inputs s2 = [Add_input 3 ''X'']" "get_position s2 = Some 6"
    using assms b
    by (simp_all add: s2_def on_add_region_def state_of_def prim_defs map_of_shift_cursors)
  show ?thesis using a b c d by blast
qed

theorem concurrent_insert_scenario_witness:
  "\<not> read_only connected_abc \<and> userid connected_abc = Some 1 \<and> (2::int) \<noteq> 1
   \<and> content connected_abc = ''abc'' \<and> server_content connected_abc = ''abc''
   \<and> builtup_inputs connected_abc = []
   \<and> map_option position (map_of (cursors connected_abc) 1) = Some 3
   \<and> map_option position (map_of (server_cursors connected_abc) 1) = Some 3
   \<and> (\<exists>s1 s2. add ''X'' 1 connected_abc = Returned s1
      \<and> content s1 = ''aXbc'' \<and> builtup_inputs s1 = [Add_input 1 ''X'']
      \<and> on_add_region ''YY'' 0 2 17 s1 = Returned s2
      \<and> server_content s2 = ''YYabc'' \<and> content s2 = ''YYaXbc''
      \<and> builtup_inputs s2 = [Add_input 3 ''X''] \<and> get_position s2 = Some 6)"
proof -
  have e: "connected_abc =
     \<lparr>cursors = [(1, \<lparr>position = 3, username = ''Me'', colour = Some ''black''\<rparr>)],
      server_cursors = [(1, \<lparr>position = 3, username = ''Me'', colour = Some ''black''\<rparr>)],
      builtup_inputs = [], server_content = ''abc'', content = ''abc'',
      properties = [], server_properties = [], last_mod_id = Some 1,
      last_mod_id_dirty = True, socket = [Emit_cursor_moved 3 (Some 0)],
      userid = Some 1, read_only = False, console = 0\<rparr>"
    by (simp add: connected_abc_def handler_defs prim_defs)
  have h: "\<not> read_only connected_abc" "userid connected_abc = Some 1" "(2::int) \<noteq> 1"
    "content connected_abc = ''abc''" "server_content connected_abc = ''abc''"
    "builtup_inputs connected_abc = []"
    "map_of (cursors connected_abc) 1
       = Some \<lparr>position = 3, username = ''Me'', colour = Some ''black''\<rparr>"
    "position \<lparr>position = 3, username = ''Me'', colour = Some ''black''\<rparr> = 3"
    "map_of (server_cursors connected_abc) 1
       = Some \<lparr>position = 3, username = ''Me'', colour = Some ''black''\<rparr>"
    by (simp_all add: e)
  show ?thesis
    using concurrent_insert_scenario [OF h(1) h(2) h(3) h(4) h(5) h(6) h(7) h(8) h(9) h(8)] h
    by simp
qed

text \<open>
  C4. Claimed: every operation keeps the ranges of each bucket proper (\<open>start < end\<close>) and
  pairwise disjoint. With \<open>b\<close> on \<open>[5, 8)\<close>, \<open>toggle_property(2, 5, "b")\<close> adds a range that
  ends where the stored one starts, and the merge leaves the single range \<open>[5, 2)\<close>.
\<close>

theorem right_touch_breaks_range_invariant:
  "properties (run [Connected 1 ''abcdefgh'' 0, Toggle_property 5 8 ''b'' Undefined] (new_Editor False))
     = [(''b'', Flagless [(5, 8)])]
   \<and> table_invariant [(''b'', Flagless [(5, 8)])]
   \<and> properties (run [Connected 1 ''abcdefgh'' 0, Toggle_property 5 8 ''b'' Undefined,
        Toggle_property 2 5 ''b'' Undefined] (new_Editor False)) = [(''b'', Flagless [(5, 2)])]
   \<and> \<not> table_invariant [(''b'', Flagless [(5, 2)])]"
  by (simp add: handler_defs prim_defs table_defs table_invariant_def bucket_invariant_def proper_def)

text \<open>
  C5. Claimed: when \<open>#actual_add_property\<close> adds \<open>[start, end)\<close> to a bucket, cleared first, the
  merge is a three-way choice: a range that ends at \<open>start\<close> is extended to \<open>end\<close>; else a range
  that starts at \<open>end\<close> gets the end \<open>start\<close>; else \<open>[start, end)\<close> is pushed. With \<open>b\<close> on \<open>[0, 2)\<close>
  and \<open>[5, 8)\<close>, \<open>toggle_property(2, 5, "b")\<close> adds \<open>[2, 5)\<close>; clearing changes nothing. The
  stated rule extends \<open>[0, 2)\<close> to \<open>[0, 5)\<close> and leaves \<open>[5, 8)\<close> alone. The engine extends
  \<open>[0, 2)\<close> and also turns \<open>[5, 8)\<close> into \<open>[5, 2)\<close>.
\<close>

theorem merge_changes_both_touching_ranges:
  "properties (run [Connected 1 ''abcdefgh'' 0, Toggle_property 0 2 ''b'' Undefined,
        Toggle_property 5 8 ''b'' Undefined] (new_Editor False))
     = [(''b'', Flagless [(0, 2), (5, 8)])]
   \<and> table_invariant [(''b'', Flagless [(0, 2), (5, 8)])]
   \<and> remove_property_table 2 5 ''b'' [(''b'', Flagless [(0, 2), (5, 8)])]
     = [(''b'', Flagless [(0, 2), (5, 8)])]
   \<and> stated_merge_rule 2 5 [(0, 2), (5, 8)] = [(0, 5), (5, 8)]
   \<and> properties (run [Connected 1 ''abcdefgh'' 0, Toggle_property 0 2 ''b'' Undefined,
        Toggle_property 5 8 ''b'' Undefined, Toggle_property 2 5 ''b'' Undefined] (new_Editor False))
     = [(''b'', Flagless [(0, 5), (5, 2)])]
   \<and> \<not> table_invariant [(''b'', Flagless [(0, 5), (5, 2)])]"
  by (simp add: handler_defs prim_defs table_defs stated_merge_rule_def table_invariant_def
        bucket_invariant_def proper_def disjoint_def)

text \<open>The loop in general, for a property that is still in the table after \<open>[start, end)\<close>
  was cleared: every range of the bucket is treated on its own.\<close>

lemma add_property_merges_per_range:
  assumes "map_of props property = Some prop"
    and "map_of (remove_property_table start end property props) property = Some cleared"
  shows "\<exists>merged. map_of (add_property_table start end property flag props) property = Some merged
      \<and> ranges_of flag merged =
          (if list_ex (\<lambda>R. snd R = start \<or> fst R = end) (ranges_of flag cleared)
           then map (touch_merge start end) (ranges_of flag cleared)
           else ranges_of flag cleared @ [(start, end)])"
proof (cases cleared)
  case (Flagless ranges)
  then show ?thesis using assms
    by (simp add: add_property_table_def update_conv' ranges_of_def merge_range_eq)
next
  case (Flagged m)
  then show ?thesis using assms
    by (auto simp add: add_property_table_def update_conv' ranges_of_def merge_range_eq Let_def
          split: option.splits)
qed

text \<open>
  C6. Claimed: \<open>add\<close>, \<open>remove\<close>, \<open>move_cursor\<close> and \<open>toggle_property\<close> are no-ops (state
  unchanged, nothing enqueued, nothing emitted) whenever \<open>read_only\<close> is true or \<open>userid\<close> is
  undefined. On a new engine that is not read-only and has not received \<open>connected\<close>, the
  operations run: \<open>remove\<close> and \<open>toggle_property\<close> enqueue, emit and change the state; \<open>add\<close>
  enqueues, emits and inserts before it throws; \<open>move_cursor\<close> enqueues before it throws.
\<close>

theorem unconnected_operations_run:
  "userid (new_Editor False) = None \<and> \<not> read_only (new_Editor False)
   \<and> builtup_inputs (state_of (remove 0 1 (new_Editor False))) = [Remove_input 0 1]
   \<and> socket (state_of (remove 0 1 (new_Editor False))) = [Emit_remove_region 0 1 None]
   \<and> remove 0 1 (new_Editor False) \<noteq> Returned (new_Editor False)
   \<and> builtup_inputs (state_of (toggle_property 0 1 ''b'' Undefined (new_Editor False)))
       = [Add_property_input 0 1 ''b'' Undefined]
   \<and> socket (state_of (toggle_property 0 1 ''b'' Undefined (new_Editor False)))
       = [Emit_add_property 0 1 ''b'' Undefined None]
   \<and> properties (state_of (toggle_property 0 1 ''b'' Undefined (new_Editor False)))
       = [(''b'', Flagless [(0, 1)])]
   \<and> add ''X'' 0 (new_Editor False)
       = Threw TypeError ((new_Editor False)\<lparr>builtup_inputs := [Add_input 0 ''X''],
           content := ''X'', socket := [Emit_add_region ''X'' 0 None]\<rparr>)
   \<and> move_cursor 0 (new_Editor False)
       = Threw TypeError ((new_Editor False)\<lparr>builtup_inputs := [Cursor_input 0]\<rparr>)"
  by (simp add: handler_defs prim_defs table_defs)

text \<open>The guard the operations do have: with \<open>read_only\<close> each of them returns at once.\<close>

lemma read_only_operations_are_noops:
  assumes "read_only s"
  shows "add text position' s = Returned s \<and> remove start end s = Returned s
       \<and> move_cursor position' s = Returned s
       \<and> toggle_property start end property flag s = Returned s"
  using assms by (simp add: add_def remove_def move_cursor_def toggle_property_def)

text \<open>
  C7. Claimed: on a connected engine that is not read-only, \<open>toggle_property(start, end,
  property, flag)\<close> chooses \<open>remove\<close> if and only if a single range of the bucket covers
  \<open>[start, end)\<close>. After \<open>b\<close> was put on \<open>[0, 5)\<close> and \<open>[6, 9)\<close> and the character at 5 removed,
  the bucket holds \<open>[0, 5)\<close> and \<open>[5, 8)\<close>. The single range \<open>[0, 5)\<close> covers \<open>[2, 5)\<close>, yet
  \<open>toggle_property(2, 5, "b")\<close> chooses \<open>add\<close>, because \<open>[5, 8)\<close> touches \<open>[2, 5)\<close> at 5; the add
  leaves \<open>[0, 5)\<close> and \<open>[5, 2)\<close>.
\<close>

theorem covered_toggle_chooses_add:
  "userid (run [Connected 1 ''abcdefghi'' 0, Toggle_property 0 5 ''b'' Undefined,
        Toggle_property 6 9 ''b'' Undefined, Remove 5 6] (new_Editor False)) = Some 1
   \<and> \<not> read_only (run [Connected 1 ''abcdefghi'' 0, Toggle_property 0 5 ''b'' Undefined,
        Toggle_property 6 9 ''b'' Undefined, Remove 5 6] (new_Editor False))
   \<and> properties (run [Connected 1 ''abcdefghi'' 0, Toggle_property 0 5 ''b'' Undefined,
        Toggle_property 6 9 ''b'' Undefined, Remove 5 6] (new_Editor False))
     = [(''b'', Flagless [(0, 5), (5, 8)])]
   \<and> covers 2 5 (0, 5) \<and> \<not> covers 2 5 (5, 8)
   \<and> toggle_action 2 5 ''b'' Undefined [(''b'', Flagless [(0, 5), (5, 8)])] = Action_add
   \<and> builtup_inputs (state_of (toggle_property 2 5 ''b'' Undefined
        (run [Connected 1 ''abcdefghi'' 0, Toggle_property 0 5 ''b'' Undefined,
          Toggle_property 6 9 ''b'' Undefined, Remove 5 6] (new_Editor False))))
     = [Add_property_input 0 5 ''b'' Undefined, Add_property_input 6 9 ''b'' Undefined,
        Remove_input 5 6, Add_property_input 2 5 ''b'' Undefined]
   \<and> properties (state_of (toggle_property 2 5 ''b'' Undefined
        (run [Connected 1 ''abcdefghi'' 0, Toggle_property 0 5 ''b'' Undefined,
          Toggle_property 6 9 ''b'' Undefined, Remove 5 6] (new_Editor False))))
     = [(''b'', Flagless [(0, 5), (5, 2)])]"
  by (simp add: handler_defs prim_defs table_defs remove_empty_filter covers_def)

text \<open>The choice in general: \<open>remove\<close> if and only if exactly one range of the bucket overlaps
  or touches \<open>[start, end]\<close> and that range covers it. The choice is read off the input the
  operation enqueues.\<close>

lemma toggle_property_action:
  assumes "\<not> read_only s"
  shows "\<exists>s'. toggle_property start end property flag s = Returned s' \<and>
     (if (\<exists>prop us R vs. map_of (properties s) property = Some prop
            \<and> ranges_of flag prop = us @ R # vs
            \<and> covers start end R \<and> overlaps start end R
            \<and> (\<forall>u\<in>set (us @ vs). \<not> overlaps start end u))
      then builtup_inputs s' = builtup_inputs s @ [Remove_property_input start end property]
      else builtup_inputs s' = builtup_inputs s @ [Add_property_input start end property flag])"
proof -
  define s2 where "s2 = assert (in_content end (assert (in_content start s) s))
                          (assert (in_content start s) s)"
  define s3 where "s3 =
     (case map_of (properties s2) property of
        Some (Flagged m) \<Rightarrow> assert (flag \<noteq> Undefined) s2
      | Some (Flagless ranges) \<Rightarrow> assert (flag = Undefined) s2
      | None \<Rightarrow> s2)"
  have p3: "properties s3 = properties s" "builtup_inputs s3 = builtup_inputs s"
    by (auto simp: s3_def s2_def assert_def split: option.splits property_ranges.splits)
  let ?r = "state_of (toggle_property start end property flag s)"
  show ?thesis
  proof (cases "toggle_action start end property flag (properties s)")
    case Action_remove
    then have "builtup_inputs ?r = builtup_inputs s @ [Remove_property_input start end property]"
      "toggle_property start end property flag s = Returned ?r"
      using assms p3 unfolding toggle_property_def Let_def s2_def[symmetric] s3_def[symmetric]
      by (simp_all add: state_of_def actual_remove_property_def emit_def push_input_def)
    moreover have "\<exists>prop us R vs. map_of (properties s) property = Some prop
            \<and> ranges_of flag prop = us @ R # vs
            \<and> covers start end R \<and> overlaps start end R
            \<and> (\<forall>u\<in>set (us @ vs). \<not> overlaps start end u)"
      using Action_remove toggle_action_remove_iff[of start "end" property flag "properties s"]
      by simp
    ultimately show ?thesis by (intro exI[of _ ?r]) simp
  next
    case Action_add
    then have "builtup_inputs ?r = builtup_inputs s @ [Add_property_input start end property flag]"
      "toggle_property start end property flag s = Returned ?r"
      using assms p3 unfolding toggle_property_def Let_def s2_def[symmetric] s3_def[symmetric]
      by (simp_all add: state_of_def actual_add_property_def emit_def push_input_def)
    moreover have "\<not> (\<exists>prop us R vs. map_of (properties s) property = Some prop
            \<and> ranges_of flag prop = us @ R # vs
            \<and> covers start end R \<and> overlaps start end R
            \<and> (\<forall>u\<in>set (us @ vs). \<not> overlaps start end u))"
      using Action_add toggle_action_remove_iff[of start "end" property flag "properties s"]
      by simp
    ultimately show ?thesis by (intro exI[of _ ?r]) simp
  qed
qed

text \<open>
  C8, as amended. On an echo whose payload does not match the head of the queue, the
  handlers of \<open>add_region\<close>, \<open>remove_region\<close>, \<open>add_property\<close> and \<open>remove_property\<close> log the
  failed assertion and return: the state is the one in which the mismatch was detected
  (the event applied to the shadow replica, the head popped), and nothing is mutated
  after it. The handler of \<open>cursor_moved\<close> still sets the shadow cursor of the local user to
  the echoed position after the assertion.
\<close>

theorem echo_mismatch_state:
  assumes "userid s = Some u" and "builtup_inputs s = expect # rest"
  shows "(expect \<noteq> Add_input position' text \<longrightarrow>
            on_add_region text position' u mod_id s =
              Returned ((actual_add text position' True (set_last_mod_id mod_id s))
                          \<lparr>builtup_inputs := rest, console := Suc (console s)\<rparr>))
       \<and> (expect \<noteq> Remove_input start end \<longrightarrow>
            on_remove_region start end u mod_id s =
              Returned ((actual_remove start end True (set_last_mod_id mod_id s))
                          \<lparr>builtup_inputs := rest, console := Suc (console s)\<rparr>))
       \<and> (\<not> expect_add_property expect start end property flag \<longrightarrow>
            on_add_property start end property flag u mod_id s =
              Returned ((actual_add_property start end property flag True (set_last_mod_id mod_id s))
                          \<lparr>builtup_inputs := rest, console := Suc (console s)\<rparr>))
       \<and> (expect \<noteq> Remove_property_input start end property \<longrightarrow>
            on_remove_property start end property u mod_id s =
              Returned ((actual_remove_property start end property True (set_last_mod_id mod_id s))
                          \<lparr>builtup_inputs := rest, console := Suc (console s)\<rparr>))
       \<and> (expect \<noteq> Cursor_input position' \<and> map_of (server_cursors s) u = Some c \<longrightarrow>
            on_cursor_moved random position' u username' mod_id s =
              Returned ((set_last_mod_id mod_id s)
                          \<lparr>builtup_inputs := rest, console := Suc (console s),
                            server_cursors :=
                              AList.update u (c\<lparr>position := position'\<rparr>) (server_cursors s)\<rparr>))"
  using assms
  by (simp add: on_add_region_def on_remove_region_def on_add_property_def on_remove_property_def
        on_cursor_moved_def prim_defs actual_add_property_def actual_remove_property_def)

theorem echo_mismatch_state_witness:
  "userid (run [Connected 1 ''abc'' 0, Move_cursor 2] (new_Editor False)) = Some 1
   \<and> builtup_inputs (run [Connected 1 ''abc'' 0, Move_cursor 2] (new_Editor False)) = [Cursor_input 2]
   \<and> Cursor_input 2 \<noteq> Add_input 0 ''Q'' \<and> Cursor_input 2 \<noteq> Remove_input 0 1
   \<and> \<not> expect_add_property (Cursor_input 2) 0 1 ''b'' Null
   \<and> Cursor_input 2 \<noteq> Remove_property_input 0 1 ''b'' \<and> Cursor_input 2 \<noteq> Cursor_input 0
   \<and> map_of (server_cursors (run [Connected 1 ''abc'' 0, Move_cursor 2] (new_Editor False))) 1
       = Some \<lparr>position = 0, username = ''Me'', colour = Some ''black''\<rparr>
   \<and> on_add_region ''Q'' 0 1 5 (run [Connected 1 ''abc'' 0, Move_cursor 2] (new_Editor False))
      = Returned \<lparr>cursors = [(1, \<lparr>position = 2, username = ''Me'', colour = Some ''black''\<rparr>)],
          server_cursors = [(1, \<lparr>position = 0, username = ''Me'', colour = Some ''black''\<rparr>)],
          builtup_inputs = [], server_content = ''Qabc'', content = ''abc'',
          properties = [], server_properties = [], last_mod_id = Some 5,
          last_mod_id_dirty = True, socket = [Emit_cursor_moved 2 (Some 0)],
          userid = Some 1, read_only = False, console = 1\<rparr>
   \<and> on_remove_region 0 1 1 5 (run [Connected 1 ''abc'' 0, Move_cursor 2] (new_Editor False))
      = Returned \<lparr>cursors = [(1, \<lparr>position = 2, username = ''Me'', colour = Some ''black''\<rparr>)],
          server_cursors = [(1, \<lparr>position = 0, username = ''Me'', colour = Some ''black''\<rparr>)],
          builtup_inputs = [], server_content = ''bc'', content = ''abc'',
          properties = [], server_properties = [], last_mod_id = Some 5,
          last_mod_id_dirty = True, socket = [Emit_cursor_moved 2 (Some 0)],
          userid = Some 1, read_only = False, console = 1\<rparr>
   \<and> on_add_property 0 1 ''b'' Null 1 5 (run [Connected 1 ''abc'' 0, Move_cursor 2] (new_Editor False))
      = Returned \<lparr>cursors = [(1, \<lparr>position = 2, username = ''Me'', colour = Some ''black''\<rparr>)],
          server_cursors = [(1, \<lparr>position = 0, username = ''Me'', colour = Some ''black''\<rparr>)],
          builtup_inputs = [], server_content = ''abc'', content = ''abc'',
          properties = [], server_properties = [(''b'', Flagless [(0, 1)])], last_mod_id = Some 5,
          last_mod_id_dirty = True, socket = [Emit_cursor_moved 2 (Some 0)],
          userid = Some 1, read_only = False, console = 1\<rparr>
   \<and> on_remove_property 0 1 ''b'' 1 5 (run [Connected 1 ''abc'' 0, Move_cursor 2] (new_Editor False))
      = Returned \<lparr>cursors = [(1, \<lparr>position = 2, username = ''Me'', colour = Some ''black''\<rparr>)],
          server_cursors = [(1, \<lparr>position = 0, username = ''Me'', colour = Some ''black''\<rparr>)],
          builtup_inputs = [], server_content = ''abc'', content = ''abc'',
          properties = [], server_properties = [], last_mod_id = Some 5,
          last_mod_id_dirty = True, socket = [Emit_cursor_moved 2 (Some 0)],
          userid = Some 1, read_only = False, console = 1\<rparr>
   \<and> on_cursor_moved 0 0 1 ''Me'' 5 (run [Connected 1 ''abc'' 0, Move_cursor 2] (new_Editor False))
      = Returned \<lparr>cursors = [(1, \<lparr>position = 2, username = ''Me'', colour = Some ''black''\<rparr>)],
          server_cursors = [(1, \<lparr>position = 0, username = ''Me'', colour = Some ''black''\<rparr>)],
          builtup_inputs = [], server_content = ''abc'', content = ''abc'',
          properties = [], server_properties = [], last_mod_id = Some 5,
          last_mod_id_dirty = True, socket = [Emit_cursor_moved 2 (Some 0)],
          userid = Some 1, read_only = False, console = 1\<rparr>"
proof -
  let ?s = "run [Connected 1 ''abc'' 0, Move_cursor 2] (new_Editor False)"
  let ?c = "\<lparr>position = 0, username = ''Me'', colour = Some ''black''\<rparr>"
  have e: "?s = \<lparr>cursors = [(1, \<lparr>position = 2, username = ''Me'', colour = Some ''black''\<rparr>)],
          server_cursors = [(1, ?c)],
          builtup_inputs = [Cursor_input 2], server_content = ''abc'', content = ''abc'',
          properties = [], server_properties = [], last_mod_id = Some 0,
          last_mod_id_dirty = False, socket = [Emit_cursor_moved 2 (Some 0)],
          userid = Some 1, read_only = False, console = 0\<rparr>"
    by (simp add: handler_defs prim_defs)
  have u: "userid ?s = Some 1" and q: "builtup_inputs ?s = [Cursor_input 2]"
    and c: "map_of (server_cursors ?s) 1 = Some ?c"
    by (simp_all add: e)
  note m = echo_mismatch_state [OF u q, of 0 "''Q''" 5 0 1 "''b''" Null ?c 0 "''Me''"]
  have b: "on_add_region ''Q'' 0 1 5 ?s =
      Returned ((actual_add ''Q'' 0 True (set_last_mod_id 5 ?s))
                  \<lparr>builtup_inputs := [], console := Suc (console ?s)\<rparr>)"
    "on_remove_region 0 1 1 5 ?s =
      Returned ((actual_remove 0 1 True (set_last_mod_id 5 ?s))
                  \<lparr>builtup_inputs := [], console := Suc (console ?s)\<rparr>)"
    "on_add_property 0 1 ''b'' Null 1 5 ?s =
      Returned ((actual_add_property 0 1 ''b'' Null True (set_last_mod_id 5 ?s))
                  \<lparr>builtup_inputs := [], console := Suc (console ?s)\<rparr>)"
    "on_remove_property 0 1 ''b'' 1 5 ?s =
      Returned ((actual_remove_property 0 1 ''b'' True (set_last_mod_id 5 ?s))
                  \<lparr>builtup_inputs := [], console := Suc (console ?s)\<rparr>)"
    "on_cursor_moved 0 0 1 ''Me'' 5 ?s =
      Returned ((set_last_mod_id 5 ?s)
                  \<lparr>builtup_inputs := [], console := Suc (console ?s),
                    server_cursors := AList.update 1 (?c\<lparr>position := 0\<rparr>) (server_cursors ?s)\<rparr>)"
    using m c by simp_all
  show ?thesis
    unfolding b unfolding e
    by (simp add: prim_defs table_defs)
qed

text \<open>With the insert of \<open>X\<close> at the head of the queue, an echoed \<open>cursor_moved(2)\<close> of the
  local user fails the assertion, and the shadow cursor goes from 0 to 2 all the same.\<close>

theorem cursor_echo_mismatch_counterexample:
  "builtup_inputs (run [Connected 1 ''abc'' 0, Add ''X'' 1] (new_Editor False)) = [Add_input 1 ''X'']
   \<and> Add_input 1 ''X'' \<noteq> Cursor_input 2
   \<and> map_option position (map_of (server_cursors (run [Connected 1 ''abc'' 0, Add ''X'' 1] (new_Editor False))) 1)
       = Some 0
   \<and> map_option position (map_of (server_cursors (state_of (on_cursor_moved 0 2 1 ''Me'' 5
        (run [Connected 1 ''abc'' 0, Add ''X'' 1] (new_Editor False))))) 1) = Some 2
   \<and> console (state_of (on_cursor_moved 0 2 1 ''Me'' 5
        (run [Connected 1 ''abc'' 0, Add ''X'' 1] (new_Editor False)))) = 1"
  by (simp add: handler_defs prim_defs table_defs)

text \<open>
  C9, as amended. For all numbers (finite doubles, infinities and \<open>NaN\<close>), \<open>linesIntersect\<close>
  gives the same answer when the two segments are exchanged:
  \<open>linesIntersect(a1, a2, b1, b2) == linesIntersect(b1, b2, a1, a2)\<close>. When all eight
  coordinates are integers of magnitude at most \<open>2^24\<close>, it also gives the same answer when
  both segments are reversed: \<open>linesIntersect(a1, a2, b1, b2) == linesIntersect(a2, a1, b2, b1)\<close>.
\<close>

theorem linesIntersect_symmetries:
  "linesIntersect a1 a2 b1 b2 = linesIntersect b1 b2 a1 a2
   \<and> (list_all (\<lambda>c. \<bar>c\<bar> \<le> 2 ^ 24) [a1x, a1y, a2x, a2y, b1x, b1y, b2x, b2y] \<longrightarrow>
        linesIntersect (int_point a1x a1y) (int_point a2x a2y) (int_point b1x b1y) (int_point b2x b2y)
          = linesIntersect (int_point a2x a2y) (int_point a1x a1y) (int_point b2x b2y) (int_point b1x b1y))"
proof (intro conjI impI)
  show "linesIntersect a1 a2 b1 b2 = linesIntersect b1 b2 a1 a2"
    by (rule linesIntersect_exchanged)
next
  assume "list_all (\<lambda>c. \<bar>c\<bar> \<le> 2 ^ 24) [a1x, a1y, a2x, a2y, b1x, b1y, b2x, b2y]"
  then have "\<forall>c\<in>set [a1x, a1y, a2x, a2y, b1x, b1y, b2x, b2y]. \<bar>c\<bar> \<le> 2 ^ 24"
    by simp
  then show "linesIntersect (int_point a1x a1y) (int_point a2x a2y) (int_point b1x b1y) (int_point b2x b2y)
      = linesIntersect (int_point a2x a2y) (int_point a1x a1y) (int_point b2x b2y) (int_point b1x b1y)"
    by (rule linesIntersect_int_points_reversed)
qed

theorem linesIntersect_symmetries_witness:
  "list_all (\<lambda>c. \<bar>c\<bar> \<le> 2 ^ 24) [0, 0, 4, 4, 0, 4, 4, 0 :: int]
   \<and> linesIntersect (int_point 0 0) (int_point 4 4) (int_point 0 4) (int_point 4 0)
   \<and> linesIntersect (int_point 0 4) (int_point 4 0) (int_point 0 0) (int_point 4 4)
   \<and> linesIntersect (int_point 4 4) (int_point 0 0) (int_point 4 0) (int_point 0 4)"
proof -
  have h: "list_all (\<lambda>c. \<bar>c\<bar> \<le> 2 ^ 24) [0, 0, 4, 4, 0, 4, 4, 0 :: int]" by simp
  have e: "linesIntersect (int_point 0 0) (int_point 4 4) (int_point 0 4) (int_point 4 0)"
    by (simp add: int_point_def double_eval)
  show ?thesis
    using h e linesIntersect_symmetries [of "int_point 0 0" "int_point 4 4" "int_point 0 4"
        "int_point 4 0" 0 0 4 4 0 4 4 0]
    by blast
qed

text \<open>Reversing both segments changes the answer. For \<open>a = (0, 0)-(1, 0)\<close> and
  \<open>b = (-1e-20, -1)-(-1e-20, 1)\<close> the answer is false (\<open>ua\<close> is \<open>-1e-20\<close>); reversed,
  \<open>a1[0] - b1[0] = 1 + 1e-20\<close> rounds to 1, \<open>ua\<close> is 1 and the answer is true. For
  \<open>a = (0.1, 0.7)-(0.8, 0.3)\<close> and \<open>b = (0.1, 0.7)-(0.6, 0.4)\<close>, which start at the same point,
  the answer is true, and false after the reversal. The first conjuncts give the doubles
  that the literals \<open>1e-20\<close>, \<open>0.1\<close>, \<open>0.7\<close>, \<open>0.8\<close>, \<open>0.3\<close>, \<open>0.6\<close> and \<open>0.4\<close> denote.\<close>

theorem linesIntersect_reversal_counterexample:
  "round_double (1 / 10 ^ 20) = Finite (6646139978924579 / 2 ^ 119)
   \<and> round_double (1 / 10) = Finite (3602879701896397 / 2 ^ 55)
   \<and> round_double (7 / 10) = Finite (3152519739159347 / 2 ^ 52)
   \<and> round_double (8 / 10) = Finite (3602879701896397 / 2 ^ 52)
   \<and> round_double (3 / 10) = Finite (5404319552844595 / 2 ^ 54)
   \<and> round_double (6 / 10) = Finite (5404319552844595 / 2 ^ 53)
   \<and> round_double (4 / 10) = Finite (3602879701896397 / 2 ^ 53)
   \<and> linesIntersect (Finite 0, Finite 0) (Finite 1, Finite 0)
        (Finite (- (6646139978924579 / 2 ^ 119)), Finite (- 1))
        (Finite (- (6646139978924579 / 2 ^ 119)), Finite 1) = False
   \<and> linesIntersect (Finite 1, Finite 0) (Finite 0, Finite 0)
        (Finite (- (6646139978924579 / 2 ^ 119)), Finite 1)
        (Finite (- (6646139978924579 / 2 ^ 119)), Finite (- 1)) = True
   \<and> linesIntersect (Finite (3602879701896397 / 2 ^ 55), Finite (3152519739159347 / 2 ^ 52))
        (Finite (3602879701896397 / 2 ^ 52), Finite (5404319552844595 / 2 ^ 54))
        (Finite (3602879701896397 / 2 ^ 55), Finite (3152519739159347 / 2 ^ 52))
        (Finite (5404319552844595 / 2 ^ 53), Finite (3602879701896397 / 2 ^ 53)) = True
   \<and> linesIntersect (Finite (3602879701896397 / 2 ^ 52), Finite (5404319552844595 / 2 ^ 54))
        (Finite (3602879701896397 / 2 ^ 55), Finite (3152519739159347 / 2 ^ 52))
        (Finite (5404319552844595 / 2 ^ 53), Finite (3602879701896397 / 2 ^ 53))
        (Finite (3602879701896397 / 2 ^ 55), Finite (3152519739159347 / 2 ^ 52)) = False"
  by (simp add: double_eval)

text \<open>
  C10, as amended. The handlers \<open>remove(id)\<close> and \<open>edit(id, d)\<close> leave the scene as it is
  when no element of the page has the id. \<open>ungroup(group_id)\<close> has no such guard: it throws
  a \<open>TypeError\<close> exactly when no element of the page has \<open>group_id\<close>. When the element found
  is a child of the drawing area, its children are moved to the end of the top level in
  order and the element is removed.
\<close>

theorem whiteboard_missing_element:
  "(getElementById pg i area = Absent \<longrightarrow>
      on_remove pg i area = In_area (Returned area)
      \<and> on_edit pg i new_path area = In_area (Returned area)
      \<and> ungroup pg i area = In_area (Threw TypeError area))
   \<and> ((\<exists>a. ungroup pg i area = In_area (Threw TypeError a)) \<longleftrightarrow> getElementById pg i area = Absent)
   \<and> (i \<noteq> [] \<and> i \<notin> set (ids_before pg) \<and> child_index i area = Some k \<longrightarrow>
        ungroup pg i area
          = In_area (Returned (take k area @ drop (Suc k) area @ children (area ! k))))"
proof (intro conjI impI)
  assume "getElementById pg i area = Absent"
  then show "on_remove pg i area = In_area (Returned area)"
    "on_edit pg i new_path area = In_area (Returned area)"
    "ungroup pg i area = In_area (Threw TypeError area)"
    by (simp_all add: on_remove_def on_edit_def ungroup_def)
next
  show "(\<exists>a. ungroup pg i area = In_area (Threw TypeError a)) \<longleftrightarrow> getElementById pg i area = Absent"
    by (auto simp: ungroup_def Let_def split: lookup.splits option.splits)
next
  assume h: "i \<noteq> [] \<and> i \<notin> set (ids_before pg) \<and> child_index i area = Some k"
  then obtain pre g post where s: "area = pre @ g # post" "length pre = k" "elem_id g = i"
      "\<forall>e\<in>set pre. find_elem i e = None"
    using child_index_split by blast
  obtain t d cs where g: "g = Element t i d cs" using s(3) by (cases g) auto
  have f: "getElementById pg i area = In_scene g"
    using h s by (simp add: getElementById_def find_elems_split)
  have l: "ungroup_loop i (children g) area = pre @ Element t i d [] # post @ cs"
    using s(4) unfolding s(1) g by (simp add: ungroup_loop_split)
  have c: "child_index i (pre @ Element t i d [] # post @ cs) = Some k"
    using child_index_at[OF s(4), of "Element t i d []" "post @ cs"] s(2) by simp
  have "ungroup pg i area = In_area (Returned (pre @ post @ cs))"
    using f l c s(2) by (simp add: ungroup_def)
  moreover have "take k area @ drop (Suc k) area @ children (area ! k) = pre @ post @ cs"
    using s(2) unfolding s(1) g by (simp add: nth_append)
  ultimately show "ungroup pg i area
      = In_area (Returned (take k area @ drop (Suc k) area @ children (area ! k)))"
    by simp
qed

theorem whiteboard_missing_element_witness:
  "getElementById named_page ''zz'' nested_scene = Absent
   \<and> on_remove named_page ''zz'' nested_scene = In_area (Returned nested_scene)
   \<and> on_edit named_page ''zz'' ''M 9 9'' nested_scene = In_area (Returned nested_scene)
   \<and> ungroup named_page ''zz'' nested_scene = In_area (Threw TypeError nested_scene)
   \<and> ''g1'' \<noteq> [] \<and> ''g1'' \<notin> set (ids_before named_page)
   \<and> child_index ''g1'' nested_scene = Some 0
   \<and> ungroup named_page ''g1'' nested_scene = In_area (Returned
       [Element Tag_g ''g2'' None
          [Element Tag_path ''p'' (Some ''M 0 0'') [], Element Tag_path ''q'' (Some ''M 1 1'') []],
        Element Tag_path ''r'' (Some ''M 2 2'') []])"
proof -
  have n: "getElementById named_page ''zz'' nested_scene = Absent"
    by (simp add: nested_scene_eval getElementById_def named_page_def)
  have k: "''g1'' \<noteq> [] \<and> ''g1'' \<notin> set (ids_before named_page)
      \<and> child_index ''g1'' nested_scene = Some 0"
    by (simp add: nested_scene_eval named_page_def)
  have "ungroup named_page ''g1'' nested_scene
      = In_area (Returned (take 0 nested_scene @ drop (Suc 0) nested_scene @ children (nested_scene ! 0)))"
    using whiteboard_missing_element [of named_page "''g1''" nested_scene "''M 9 9''" 0] k by blast
  moreover have "on_remove named_page ''zz'' nested_scene = In_area (Returned nested_scene)
      \<and> on_edit named_page ''zz'' ''M 9 9'' nested_scene = In_area (Returned nested_scene)
      \<and> ungroup named_page ''zz'' nested_scene = In_area (Threw TypeError nested_scene)"
    using whiteboard_missing_element [of named_page "''zz''" nested_scene "''M 9 9''" 0] n by blast
  ultimately show ?thesis using n k by (simp add: nested_scene_eval)
qed

text \<open>The group \<open>g2\<close> exists, inside \<open>g1\<close>. \<open>ungroup("g2")\<close> moves its children to the top
  level and then throws \<open>NotFoundError\<close>: the emptied group stays in \<open>g1\<close>.\<close>

theorem nested_ungroup_counterexample:
  "getElementById named_page ''g2'' nested_scene
     = In_scene (Element Tag_g ''g2'' None
         [Element Tag_path ''p'' (Some ''M 0 0'') [], Element Tag_path ''q'' (Some ''M 1 1'') []])
   \<and> ungroup named_page ''g2'' nested_scene = In_area (Threw NotFoundError
       [Element Tag_g ''g1'' None
          [Element Tag_g ''g2'' None [], Element Tag_path ''r'' (Some ''M 2 2'') []],
        Element Tag_path ''p'' (Some ''M 0 0'') [], Element Tag_path ''q'' (Some ''M 1 1'') []])"
  by (simp add: nested_scene_eval getElementById_def ungroup_def named_page_def)

end
